theory Spec2Isabelle
  imports Main
begin

section \<open>Python values used by the build monitor\<close>

text \<open>
  The module under verification is \<^verbatim>\<open>src/bake/azext_bake/_ci.py\<close>.  A Python \<^verbatim>\<open>str\<close> is a
  sequence of Unicode code points and \<^verbatim>\<open>len\<close> counts code points, so a string is modelled
  as a list of code points (natural numbers), not as a list of 8-bit characters.
  \<open>lit\<close> turns an ASCII literal of the source into such a list.
\<close>

type_synonym pystr = "nat list"

definition lit :: "string \<Rightarrow> pystr" where
  "lit s = map of_char s"

text \<open>The line feed, \<^verbatim>\<open>'\n'\<close>.\<close>

definition LF :: nat where
  "LF = 10"

text \<open>
  Truthiness of an optional string (\<^verbatim>\<open>if x:\<close>, \<^verbatim>\<open>x or y\<close>): \<^verbatim>\<open>None\<close> and the empty
  string are false.
\<close>

fun truthy :: "pystr option \<Rightarrow> bool" where
  "truthy None = False"
| "truthy (Some s) = (s \<noteq> [])"

text \<open>
  \<^verbatim>\<open>xs[i:]\<close> for a Python integer \<open>i\<close>: a negative start counts from the end and is
  clamped at the beginning, a start past the end gives the empty sequence.
\<close>

definition py_slice_from :: "'a list \<Rightarrow> int \<Rightarrow> 'a list" where
  "py_slice_from xs i =
     (if i < 0 then drop (nat (int (length xs) + i)) xs else drop (nat i) xs)"

text \<open>\<^verbatim>\<open>sep.join(xs)\<close>.\<close>

fun py_join :: "pystr \<Rightarrow> pystr list \<Rightarrow> pystr" where
  "py_join sep [] = []"
| "py_join sep [x] = x"
| "py_join sep (x # y # ys) = x @ sep @ py_join sep (y # ys)"

section \<open>BuildResult\<close>

text \<open>
  \<^verbatim>\<open>
  @dataclass
  class BuildResult:
      image_name: str
      state: str = 'Unknown'
      exit_code: Optional[int] = None
      start_time: Optional[str] = None
      finish_time: Optional[str] = None
      detail_status: str = ''
      logs_tail: str = ''
      portal_url: str = ''
  \<close>
\<close>

record BuildResult =
  image_name :: pystr
  state :: pystr
  exit_code :: "int option"
  start_time :: "pystr option"
  finish_time :: "pystr option"
  detail_status :: pystr
  logs_tail :: pystr
  portal_url :: pystr

text \<open>\<^verbatim>\<open>return self.exit_code == 0\<close>\<close>

definition succeeded :: "BuildResult \<Rightarrow> bool" where
  "succeeded r = (exit_code r = Some 0)"

text \<open>\<^verbatim>\<open>return self.exit_code is not None and self.exit_code != 0\<close>\<close>

definition failed :: "BuildResult \<Rightarrow> bool" where
  "failed r = (exit_code r \<noteq> None \<and> exit_code r \<noteq> Some 0)"

definition POLL_INTERVAL_SECONDS :: nat where
  "POLL_INTERVAL_SECONDS = 15"

definition TERMINATED :: pystr where
  "TERMINATED = lit ''Terminated''"

definition LOG_TAIL_LINES :: int where
  "LOG_TAIL_LINES = 50"

section \<open>The log delta streamer\<close>

text \<open>
  Standard output is modelled as the list of chunks written to it, oldest first: each
  \<^verbatim>\<open>print\<close> and each \<^verbatim>\<open>sys.stdout.write\<close> appends one chunk (a \<^verbatim>\<open>print\<close> chunk ends with
  the line feed that \<^verbatim>\<open>print\<close> adds).  The text of the stream is the concatenation.

  \<^verbatim>\<open>
  def _stream_log_delta(image_name, full_content, previous_length, use_groups=False):
      if len(full_content) <= previous_length:
          return previous_length
      delta = full_content[previous_length:]
      if use_groups:
          print(f'::group::{image_name} (log update)', flush=True)
      sys.stdout.write(delta)
      sys.stdout.flush()
      if use_groups:
          print('::endgroup::', flush=True)
      return len(full_content)
  \<close>
  The function takes the chunks written so far and returns the new length together with
  the chunks written after the call.  (An Isabelle name cannot start with an underscore,
  so the leading underscore of the private helpers is dropped.)
\<close>

definition print_line :: "pystr \<Rightarrow> pystr list \<Rightarrow> pystr list" where
  "print_line s out = out @ [s @ [LF]]"

definition stream_log_delta ::
    "pystr \<Rightarrow> pystr \<Rightarrow> int \<Rightarrow> bool \<Rightarrow> pystr list \<Rightarrow> int \<times> pystr list" where
  "stream_log_delta nm full_content previous_length use_groups out =
     (if int (length full_content) \<le> previous_length then (previous_length, out)
      else
        let delta = py_slice_from full_content previous_length;
            out1 = (if use_groups
                    then print_line (lit ''::group::'' @ nm @ lit '' (log update)'') out
                    else out);
            out2 = out1 @ [delta];
            out3 = (if use_groups then print_line (lit ''::endgroup::'') out2 else out2)
        in (int (length full_content), out3))"

section \<open>Text helpers\<close>

text \<open>
  \<^verbatim>\<open>str.isspace\<close> for one code point, as CPython decides it (the characters
  \<^verbatim>\<open>str.strip()\<close> removes): the ASCII controls 9 to 13 and 28 to 31, the space, NEL,
  the no-break space and the Unicode spaces and separators.
\<close>

definition isspace :: "nat \<Rightarrow> bool" where
  "isspace c =
     ((9 \<le> c \<and> c \<le> 13) \<or> (28 \<le> c \<and> c \<le> 32) \<or> c = 133 \<or> c = 160 \<or> c = 5760
      \<or> (8192 \<le> c \<and> c \<le> 8202) \<or> c = 8232 \<or> c = 8233 \<or> c = 8239 \<or> c = 8287
      \<or> c = 12288)"

text \<open>
  The line boundaries of \<^verbatim>\<open>str.splitlines()\<close>: LF, VT, FF, CR, FS, GS, RS, NEL, LS and
  PS (and the pair CR LF, which counts once).
\<close>

definition is_linebreak :: "nat \<Rightarrow> bool" where
  "is_linebreak c =
     ((10 \<le> c \<and> c \<le> 13) \<or> (28 \<le> c \<and> c \<le> 30) \<or> c = 133 \<or> c = 8232 \<or> c = 8233)"

text \<open>\<^verbatim>\<open>s.strip()\<close>: leading and trailing white space removed.\<close>

definition py_strip :: "pystr \<Rightarrow> pystr" where
  "py_strip s = rev (dropWhile isspace (rev (dropWhile isspace s)))"

text \<open>
  \<^verbatim>\<open>s.splitlines()\<close>: the text is cut at every line boundary, the boundaries are
  dropped, and a boundary at the very end opens no further (empty) line.  The first
  argument of \<open>splitlines_from\<close> is the line read so far.
\<close>

fun splitlines_from :: "pystr \<Rightarrow> pystr \<Rightarrow> pystr list" where
  "splitlines_from cur [] = (if cur = [] then [] else [cur])"
| "splitlines_from cur [c] = (if is_linebreak c then [cur] else [cur @ [c]])"
| "splitlines_from cur (c # d # cs) =
     (if is_linebreak c then
        (if c = 13 \<and> d = 10 then cur # splitlines_from [] cs
         else cur # splitlines_from [] (d # cs))
      else splitlines_from (cur @ [c]) (d # cs))"

definition splitlines :: "pystr \<Rightarrow> pystr list" where
  "splitlines s = splitlines_from [] s"

text \<open>
  \<^verbatim>\<open>
  def _tail_lines(content, n=LOG_TAIL_LINES):
      lines = content.strip().splitlines()
      return '\n'.join(lines[-n:])
  \<close>
\<close>

definition tail_lines :: "pystr \<Rightarrow> int \<Rightarrow> pystr" where
  "tail_lines content n =
     (let lines = splitlines (py_strip content)
      in py_join [LF] (py_slice_from lines (- n)))"

text \<open>\<^verbatim>\<open>message.replace('\n', '%0A')\<close>\<close>

definition escape_newlines :: "pystr \<Rightarrow> pystr" where
  "escape_newlines message = concat (map (\<lambda>c. if c = LF then lit ''%0A'' else [c]) message)"

text \<open>\<^verbatim>\<open>str(n)\<close> for an integer, and for an optional integer (\<^verbatim>\<open>str(None)\<close> is \<^verbatim>\<open>'None'\<close>).\<close>

function str_nat :: "nat \<Rightarrow> pystr" where
  "str_nat n = (if n < 10 then [48 + n] else str_nat (n div 10) @ [48 + n mod 10])"
  by pat_completeness auto
termination
  by (relation "measure (\<lambda>n. n)") auto

definition str_int :: "int \<Rightarrow> pystr" where
  "str_int i = (if i < 0 then 45 # str_nat (nat (- i)) else str_nat (nat i))"

fun str_opt_int :: "int option \<Rightarrow> pystr" where
  "str_opt_int None = lit ''None''"
| "str_opt_int (Some i) = str_int i"

text \<open>\<^verbatim>\<open>x or d\<close> for an optional string \<open>x\<close> and a string \<open>d\<close>.\<close>

fun or_else :: "pystr option \<Rightarrow> pystr \<Rightarrow> pystr" where
  "or_else None d = d"
| "or_else (Some s) d = (if s = [] then d else s)"

section \<open>The environment: GitHub Actions sinks\<close>

text \<open>
  \<^verbatim>\<open>os.environ\<close> is a map from names to strings; the file system is a map from paths to
  file contents.  Opening a file in append mode creates it when it does not exist.
  Failures of the file system itself are outside the model.

  \<^verbatim>\<open>
  def is_github_actions():
      return bool(os.environ.get('GITHUB_ACTIONS') or os.environ.get('GITHUB_ACTION'))
  \<close>
\<close>

type_synonym environ = "pystr \<rightharpoonup> pystr"
type_synonym filesystem = "pystr \<rightharpoonup> pystr"

definition is_github_actions :: "environ \<Rightarrow> bool" where
  "is_github_actions env =
     (truthy (env (lit ''GITHUB_ACTIONS'')) \<or> truthy (env (lit ''GITHUB_ACTION'')))"

definition append_file :: "pystr \<Rightarrow> pystr \<Rightarrow> filesystem \<Rightarrow> filesystem" where
  "append_file path text fs =
     fs(path \<mapsto> (case fs path of None \<Rightarrow> text | Some old \<Rightarrow> old @ text))"

text \<open>
  \<^verbatim>\<open>
  def emit_github_annotation(level, message, title=None):
      title_part = f' title={title}' if title else ''
      safe_msg = message.replace('\n', '%0A')
      print(f'::{level}{title_part}::{safe_msg}', flush=True)
  \<close>
\<close>

definition annotation_text :: "pystr \<Rightarrow> pystr \<Rightarrow> pystr option \<Rightarrow> pystr" where
  "annotation_text level message title =
     (let title_part = (case title of None \<Rightarrow> []
                        | Some t \<Rightarrow> if t = [] then [] else lit '' title='' @ t);
          safe_msg = escape_newlines message
      in lit ''::'' @ level @ title_part @ lit ''::'' @ safe_msg)"

definition emit_github_annotation ::
    "pystr \<Rightarrow> pystr \<Rightarrow> pystr option \<Rightarrow> pystr list \<Rightarrow> pystr list" where
  "emit_github_annotation level message title out =
     print_line (annotation_text level message title) out"

text \<open>
  \<^verbatim>\<open>
  def write_github_output(key, value):
      output_file = os.environ.get('GITHUB_OUTPUT')
      if output_file:
          with open(output_file, 'a', encoding='utf-8') as f:
              f.write(f'{key}={value}\n')

  def write_github_summary(markdown):
      summary_file = os.environ.get('GITHUB_STEP_SUMMARY')
      if summary_file:
          with open(summary_file, 'a', encoding='utf-8') as f:
              f.write(markdown + '\n')
  \<close>
\<close>

definition write_github_output :: "environ \<Rightarrow> pystr \<Rightarrow> pystr \<Rightarrow> filesystem \<Rightarrow> filesystem" where
  "write_github_output env key val fs =
     (case env (lit ''GITHUB_OUTPUT'') of
        None \<Rightarrow> fs
      | Some output_file \<Rightarrow>
          if output_file = [] then fs
          else append_file output_file (key @ lit ''='' @ val @ [LF]) fs)"

definition write_github_summary :: "environ \<Rightarrow> pystr \<Rightarrow> filesystem \<Rightarrow> filesystem" where
  "write_github_summary env markdown fs =
     (case env (lit ''GITHUB_STEP_SUMMARY'') of
        None \<Rightarrow> fs
      | Some summary_file \<Rightarrow>
          if summary_file = [] then fs
          else append_file summary_file (markdown @ [LF]) fs)"

section \<open>The status fetcher\<close>

text \<open>
  The container group descriptor comes from the Azure SDK, which is not part of the
  repository; the records below hold the attributes that \<^verbatim>\<open>_ci.py\<close> reads.  An attribute
  that may be \<^verbatim>\<open>None\<close> is an option.  The attributes of \<^verbatim>\<open>current_state\<close> carry the
  prefix \<open>cs_\<close>, since BuildResult has fields of the same names.  A timestamp is
  represented by the text \<^verbatim>\<open>str\<close> gives for it.
\<close>

record CurrentState =
  cs_state :: "pystr option"
  cs_exit_code :: "int option"
  cs_detail_status :: "pystr option"
  cs_start_time :: "pystr option"
  cs_finish_time :: "pystr option"

record InstanceView =
  current_state :: "CurrentState option"

record Container =
  name :: pystr
  instance_view :: "InstanceView option"

record ContainerGroup =
  containers :: "Container list option"
  provisioning_state :: "pystr option"

text \<open>
  Exceptions are values.  \<open>ClientError\<close> is any exception raised by a call of the
  remote service; \<open>KeyError\<close> is a failed dictionary lookup.
\<close>

datatype py_error = KeyError pystr | ClientError pystr

text \<open>
  The two remote clients (\<^verbatim>\<open>cf_container_groups(cli_ctx).get\<close> and
  \<^verbatim>\<open>cf_container(cli_ctx).list_logs\<close>, the latter returning \<^verbatim>\<open>log.content\<close>) as they
  answer at one moment.
\<close>

record Clients =
  group_get :: "pystr \<Rightarrow> pystr \<Rightarrow> py_error + ContainerGroup"
  list_logs :: "pystr \<Rightarrow> pystr \<Rightarrow> pystr \<Rightarrow> py_error + pystr option"

text \<open>
  \<^verbatim>\<open>
  def _get_container_state(container_group):
      containers = container_group.containers or []
      if not containers:
          return None, None, None
      instance_view = containers[0].instance_view
      if not instance_view or not instance_view.current_state:
          return container_group.provisioning_state, None, None
      current = instance_view.current_state
      return current.state, getattr(current, 'exit_code', None), current.detail_status
  \<close>
\<close>

definition containers_or_empty :: "ContainerGroup \<Rightarrow> Container list" where
  "containers_or_empty cg = (case containers cg of None \<Rightarrow> [] | Some cs \<Rightarrow> cs)"

definition get_container_state ::
    "ContainerGroup \<Rightarrow> pystr option \<times> int option \<times> pystr option" where
  "get_container_state container_group =
     (case containers_or_empty container_group of
        [] \<Rightarrow> (None, None, None)
      | c # _ \<Rightarrow>
          (case instance_view c of
             None \<Rightarrow> (provisioning_state container_group, None, None)
           | Some iv \<Rightarrow>
               (case current_state iv of
                  None \<Rightarrow> (provisioning_state container_group, None, None)
                | Some current \<Rightarrow>
                    (cs_state current, cs_exit_code current, cs_detail_status current))))"

text \<open>
  \<^verbatim>\<open>
  def _fetch_logs(cli_ctx, resource_group, container_group_name, container_name):
      try:
          container_client = cf_container(cli_ctx)
          log = container_client.list_logs(resource_group, container_group_name, container_name)
          return log.content or ''
      except Exception:
          return ''
  \<close>
\<close>

definition fetch_logs :: "Clients \<Rightarrow> pystr \<Rightarrow> pystr \<Rightarrow> pystr \<Rightarrow> pystr" where
  "fetch_logs clients resource_group container_group_name container_name =
     (case list_logs clients resource_group container_group_name container_name of
        Inl ex \<Rightarrow> []
      | Inr content \<Rightarrow> or_else content [])"

text \<open>
  \<^verbatim>\<open>
  def poll_build(cli_ctx, resource_group, image_name):
      container_group_client = cf_container_groups(cli_ctx)
      cg = container_group_client.get(resource_group, image_name)
      state, exit_code, detail_status = _get_container_state(cg)
      container_name = cg.containers[0].name if cg.containers else image_name
      logs = _fetch_logs(cli_ctx, resource_group, image_name, container_name)
      result = BuildResult(
          image_name=image_name,
          state=state or cg.provisioning_state or 'Unknown',
          exit_code=exit_code,
          detail_status=detail_status or '',
          logs_tail=_tail_lines(logs),
      )
      instance_view = cg.containers[0].instance_view if cg.containers else None
      if instance_view and instance_view.current_state:
          cs = instance_view.current_state
          result.start_time = str(cs.start_time) if cs.start_time else None
          result.finish_time = str(cs.finish_time) if cs.finish_time else None
      return result, logs
  \<close>
\<close>

definition time_text :: "pystr option \<Rightarrow> pystr option" where
  "time_text t = (if truthy t then t else None)"

definition poll_build :: "Clients \<Rightarrow> pystr \<Rightarrow> pystr \<Rightarrow> py_error + (BuildResult \<times> pystr)" where
  "poll_build clients resource_group nm =
     (case group_get clients resource_group nm of
        Inl ex \<Rightarrow> Inl ex
      | Inr cg \<Rightarrow>
          (case get_container_state cg of
             (st, ec, detail) \<Rightarrow>
               let container_name =
                     (case containers_or_empty cg of [] \<Rightarrow> nm | c # _ \<Rightarrow> name c);
                   logs = fetch_logs clients resource_group nm container_name;
                   result =
                     \<lparr>image_name = nm,
                      state = or_else st (or_else (provisioning_state cg) (lit ''Unknown'')),
                      exit_code = ec,
                      start_time = None,
                      finish_time = None,
                      detail_status = or_else detail [],
                      logs_tail = tail_lines logs LOG_TAIL_LINES,
                      portal_url = []\<rparr>;
                   view = (case containers_or_empty cg of
                             [] \<Rightarrow> None | c # _ \<Rightarrow> instance_view c);
                   result1 =
                     (case view of
                        None \<Rightarrow> result
                      | Some iv \<Rightarrow>
                          (case current_state iv of
                             None \<Rightarrow> result
                           | Some cs \<Rightarrow>
                               result\<lparr>start_time := time_text (cs_start_time cs),
                                      finish_time := time_text (cs_finish_time cs)\<rparr>))
               in Inr (result1, logs)))"

section \<open>The build monitor\<close>

text \<open>
  What stays fixed during one call of \<^verbatim>\<open>wait_for_builds\<close>: the remote service, the
  arguments and the CI flag.  \<open>world t\<close> is how the remote clients answer the call of
  \<^verbatim>\<open>poll_build\<close> that follows \<open>t\<close> earlier calls; any run of the program against any
  service is a run against some such function.
\<close>

record Session =
  world :: "nat \<Rightarrow> Clients"
  resource_group :: pystr
  image_names :: "pystr list"
  portal_urls :: "pystr \<rightharpoonup> pystr"
  in_github :: bool

text \<open>
  The variables of the loop, and its effects: the chunks written to standard output,
  the calls of \<^verbatim>\<open>poll_build\<close> made so far (by job, oldest first) and the number of
  \<^verbatim>\<open>time.sleep(POLL_INTERVAL_SECONDS)\<close> calls.  The messages given to \<^verbatim>\<open>logger\<close> go to
  the logging system and are not part of the model.
\<close>

record Monitor =
  log_offsets :: "pystr \<rightharpoonup> int"
  completed :: "pystr set"
  results :: "pystr \<rightharpoonup> BuildResult"
  stdout :: "pystr list"
  polls :: "pystr list"
  sleeps :: nat

text \<open>
  The body of \<^verbatim>\<open>for name in image_names\<close>, for one job:
  \<^verbatim>\<open>
  if name in completed:
      continue
  try:
      result, full_logs = poll_build(cli_ctx, resource_group, name)
  except Exception as ex:
      logger.info(f'Error polling {name}: {ex}')
      continue
  result.portal_url = portal_urls.get(name, '')
  results[name] = result
  log_offsets[name] = _stream_log_delta(
      name, full_logs, log_offsets[name],
      use_groups=(in_github and len(image_names) > 1))
  if result.state == TERMINATED:
      completed.add(name)
  \<close>
  \<^verbatim>\<open>log_offsets[name]\<close> raises \<^verbatim>\<open>KeyError\<close> for a missing key; by then the result has been
  stored.
\<close>

definition poll_one :: "Session \<Rightarrow> pystr \<Rightarrow> Monitor \<Rightarrow> py_error + Monitor" where
  "poll_one ses nm s =
     (if nm \<in> completed s then Inr s
      else
        case poll_build (world ses (length (polls s))) (resource_group ses) nm of
          Inl ex \<Rightarrow> Inr (s\<lparr>polls := polls s @ [nm]\<rparr>)
        | Inr (result, full_logs) \<Rightarrow>
            let result1 = result\<lparr>portal_url := (case portal_urls ses nm of
                                                  None \<Rightarrow> [] | Some u \<Rightarrow> u)\<rparr>;
                s1 = s\<lparr>polls := polls s @ [nm], results := (results s)(nm \<mapsto> result1)\<rparr>
            in (case log_offsets s1 nm of
                  None \<Rightarrow> Inl (KeyError nm)
                | Some previous_length \<Rightarrow>
                    (case stream_log_delta nm full_logs previous_length
                            (in_github ses \<and> length (image_names ses) > 1) (stdout s1) of
                       (new_length, out) \<Rightarrow>
                         let s2 = s1\<lparr>log_offsets := (log_offsets s1)(nm \<mapsto> new_length),
                                     stdout := out\<rparr>
                         in Inr (if state result1 = TERMINATED
                                 then s2\<lparr>completed := insert nm (completed s2)\<rparr>
                                 else s2))))"

text \<open>One sweep: the \<^verbatim>\<open>for\<close> loop over the job names, left by the first exception.\<close>

fun sweep :: "Session \<Rightarrow> pystr list \<Rightarrow> Monitor \<Rightarrow> py_error + Monitor" where
  "sweep ses [] s = Inr s"
| "sweep ses (nm # nms) s =
     (case poll_one ses nm s of
        Inl ex \<Rightarrow> Inl ex
      | Inr s1 \<Rightarrow> sweep ses nms s1)"

text \<open>
  \<^verbatim>\<open>
  while len(completed) < len(image_names):
      for name in image_names: ...
      if len(completed) < len(image_names):
          time.sleep(POLL_INTERVAL_SECONDS)
  \<close>
  \<open>pending\<close> is the loop condition, \<open>loop_body\<close> one iteration.  The loop has no bound on
  its iterations, so \<open>wait_loop\<close> is a partial function: \<open>None\<close> means that it never
  ends.
\<close>

definition pending :: "Session \<Rightarrow> Monitor \<Rightarrow> bool" where
  "pending ses s = (card (completed s) < length (image_names ses))"

definition loop_body :: "Session \<Rightarrow> Monitor \<Rightarrow> py_error + Monitor" where
  "loop_body ses s =
     (case sweep ses (image_names ses) s of
        Inl ex \<Rightarrow> Inl ex
      | Inr s1 \<Rightarrow> Inr (if pending ses s1 then s1\<lparr>sleeps := sleeps s1 + 1\<rparr> else s1))"

partial_function (option) wait_loop :: "Session \<Rightarrow> Monitor \<Rightarrow> (py_error + Monitor) option" where
  "wait_loop ses s =
     (if pending ses s then
        (case loop_body ses s of
           Inl ex \<Rightarrow> Some (Inl ex)
         | Inr s1 \<Rightarrow> wait_loop ses s1)
      else Some (Inr s))"

text \<open>
  The state after at most \<open>k\<close> iterations of the same loop (fewer when the loop ends
  earlier); it serves to speak about the states between the sweeps.
\<close>

fun after_sweeps :: "Session \<Rightarrow> nat \<Rightarrow> Monitor \<Rightarrow> py_error + Monitor" where
  "after_sweeps ses 0 s = Inr s"
| "after_sweeps ses (Suc k) s =
     (if pending ses s then
        (case loop_body ses s of
           Inl ex \<Rightarrow> Inl ex
         | Inr s1 \<Rightarrow> after_sweeps ses k s1)
      else Inr s)"

text \<open>\<^verbatim>\<open>[results[name] for name in image_names]\<close>\<close>

fun collect_results :: "(pystr \<rightharpoonup> BuildResult) \<Rightarrow> pystr list \<Rightarrow> py_error + BuildResult list" where
  "collect_results res [] = Inr []"
| "collect_results res (nm # nms) =
     (case res nm of
        None \<Rightarrow> Inl (KeyError nm)
      | Some r \<Rightarrow>
          (case collect_results res nms of
             Inl ex \<Rightarrow> Inl ex
           | Inr rs \<Rightarrow> Inr (r # rs)))"

text \<open>
  \<^verbatim>\<open>
  def wait_for_builds(cmd, resource_group, image_names, portal_urls=None):
      if portal_urls is None:
          portal_urls = {}
      in_github = is_github_actions()
      cli_ctx = cmd.cli_ctx
      log_offsets = {name: 0 for name in image_names}
      completed = set()
      results = {}
      if in_github:
          print('::group::Build progress', flush=True)
      while ...
      if in_github:
          print('::endgroup::', flush=True)
      return [results[name] for name in image_names]
  \<close>
  The model returns the list together with the final state of the loop, whose
  \<open>stdout\<close>, \<open>polls\<close> and \<open>sleeps\<close> are the effects of the call.
\<close>

definition initial_monitor :: "Session \<Rightarrow> Monitor" where
  "initial_monitor ses =
     \<lparr>log_offsets = (\<lambda>nm. if nm \<in> set (image_names ses) then Some 0 else None),
      completed = {},
      results = Map.empty,
      stdout = (if in_github ses then print_line (lit ''::group::Build progress'') [] else []),
      polls = [],
      sleeps = 0\<rparr>"

definition new_session ::
    "(nat \<Rightarrow> Clients) \<Rightarrow> environ \<Rightarrow> pystr \<Rightarrow> pystr list \<Rightarrow> (pystr \<rightharpoonup> pystr) option \<Rightarrow> Session" where
  "new_session w env rg nms urls =
     \<lparr>world = w, resource_group = rg, image_names = nms,
      portal_urls = (case urls of None \<Rightarrow> Map.empty | Some m \<Rightarrow> m),
      in_github = is_github_actions env\<rparr>"

definition finish_session :: "Session \<Rightarrow> Monitor \<Rightarrow> py_error + (BuildResult list \<times> Monitor)" where
  "finish_session ses s =
     (let s1 = (if in_github ses
                then s\<lparr>stdout := print_line (lit ''::endgroup::'') (stdout s)\<rparr> else s)
      in (case collect_results (results s1) (image_names ses) of
            Inl ex \<Rightarrow> Inl ex
          | Inr rs \<Rightarrow> Inr (rs, s1)))"

definition wait_for_builds ::
    "(nat \<Rightarrow> Clients) \<Rightarrow> environ \<Rightarrow> pystr \<Rightarrow> pystr list \<Rightarrow> (pystr \<rightharpoonup> pystr) option
       \<Rightarrow> (py_error + (BuildResult list \<times> Monitor)) option" where
  "wait_for_builds w env rg nms urls =
     (let ses = new_session w env rg nms urls
      in (case wait_loop ses (initial_monitor ses) of
            None \<Rightarrow> None
          | Some (Inl ex) \<Rightarrow> Some (Inl ex)
          | Some (Inr s) \<Rightarrow> Some (finish_session ses s)))"

section \<open>The result reporter\<close>

text \<open>
  The two annotation loops of \<^verbatim>\<open>report_results\<close>:
  \<^verbatim>\<open>
  for r in failed:
      tail = r.logs_tail or '(no logs available)'
      emit_github_annotation(
          'error',
          f'Build failed with exit code {r.exit_code}.\n\nLast {LOG_TAIL_LINES} lines:\n{tail}',
          title=f'{r.image_name} build failed')
  for r in succeeded:
      emit_github_annotation(
          'notice',
          'Build completed successfully.',
          title=f'{r.image_name} build succeeded')
  \<close>
\<close>

definition error_message :: "BuildResult \<Rightarrow> pystr" where
  "error_message r =
     (let tail = (if logs_tail r = [] then lit ''(no logs available)'' else logs_tail r)
      in lit ''Build failed with exit code '' @ str_opt_int (exit_code r) @ lit ''.''
         @ [LF, LF] @ lit ''Last '' @ str_int LOG_TAIL_LINES @ lit '' lines:'' @ [LF] @ tail)"

definition error_annotation :: "BuildResult \<Rightarrow> pystr list \<Rightarrow> pystr list" where
  "error_annotation r out =
     emit_github_annotation (lit ''error'') (error_message r)
       (Some (image_name r @ lit '' build failed'')) out"

definition notice_annotation :: "BuildResult \<Rightarrow> pystr list \<Rightarrow> pystr list" where
  "notice_annotation r out =
     emit_github_annotation (lit ''notice'') (lit ''Build completed successfully.'')
       (Some (image_name r @ lit '' build succeeded'')) out"

text \<open>
  The markdown summary:
  \<^verbatim>\<open>
  summary_lines = [
      '## Build Results\n',
      '| Image | Status | Exit Code | Details |',
      '|-------|--------|-----------|---------|',
  ]
  for r in results:
      if r.succeeded:
          status = ':white_check_mark: Succeeded'
      elif r.failed:
          status = ':x: Failed'
      else:
          status = ':grey_question: Unknown'
      code = str(r.exit_code) if r.exit_code is not None else '-'
      portal = f'[Portal]({r.portal_url})' if r.portal_url else '-'
      summary_lines.append(f'| {r.image_name} | {status} | {code} | {portal} |')
  summary_lines.append('')
  if failed:
      summary_lines.append('### Failure Logs\n')
      for r in failed:
          summary_lines.append(f'<details><summary>{r.image_name}</summary>\n')
          summary_lines.append(f'```\n{r.logs_tail}\n```\n')
          summary_lines.append('</details>\n')
  \<close>
\<close>

definition summary_row :: "BuildResult \<Rightarrow> pystr" where
  "summary_row r =
     (let status = (if succeeded r then lit '':white_check_mark: Succeeded''
                    else if failed r then lit '':x: Failed''
                    else lit '':grey_question: Unknown'');
          code = (case exit_code r of None \<Rightarrow> lit ''-'' | Some c \<Rightarrow> str_int c);
          portal = (if portal_url r = [] then lit ''-''
                    else lit ''[Portal]('' @ portal_url r @ lit '')'')
      in lit ''| '' @ image_name r @ lit '' | '' @ status @ lit '' | '' @ code
         @ lit '' | '' @ portal @ lit '' |'')"

definition failure_section :: "BuildResult \<Rightarrow> pystr list" where
  "failure_section r =
     [lit ''<details><summary>'' @ image_name r @ lit ''</summary>'' @ [LF],
      [96, 96, 96, LF] @ logs_tail r @ [LF, 96, 96, 96, LF],
      lit ''</details>'' @ [LF]]"

definition summary_lines :: "BuildResult list \<Rightarrow> pystr list" where
  "summary_lines rs =
     [lit ''## Build Results'' @ [LF],
      lit ''| Image | Status | Exit Code | Details |'',
      lit ''|-------|--------|-----------|---------|'']
     @ map summary_row rs
     @ [[]]
     @ (if filter failed rs = [] then []
        else (lit ''### Failure Logs'' @ [LF]) # concat (map failure_section (filter failed rs)))"

text \<open>
  \<^verbatim>\<open>
  def report_results(results, repo=None):
      in_github = is_github_actions()
      failed = [r for r in results if r.failed]
      succeeded = [r for r in results if r.succeeded]
      ...                                   # console summary, through logger
      if in_github:
          ...                               # annotations and summary, above
          write_github_summary('\n'.join(summary_lines))
          build_result = 'failure' if failed else ('success' if succeeded else 'unknown')
          write_github_output('build_result', build_result)
          if failed:
              write_github_output('failed_images', ','.join(r.image_name for r in failed))
          if succeeded:
              write_github_output('succeeded_images', ','.join(r.image_name for r in succeeded))
      return failed
  \<close>
  The model takes the chunks written to standard output and the file system, and returns
  the list of failed results with both after the call.
\<close>

definition build_result :: "BuildResult list \<Rightarrow> pystr" where
  "build_result rs =
     (if filter failed rs \<noteq> [] then lit ''failure''
      else if filter succeeded rs \<noteq> [] then lit ''success''
      else lit ''unknown'')"

definition write_outputs :: "environ \<Rightarrow> BuildResult list \<Rightarrow> filesystem \<Rightarrow> filesystem" where
  "write_outputs env rs fs =
     (let fs1 = write_github_output env (lit ''build_result'') (build_result rs) fs;
          fs2 = (if filter failed rs \<noteq> []
                 then write_github_output env (lit ''failed_images'')
                        (py_join (lit '','') (map image_name (filter failed rs))) fs1
                 else fs1)
      in if filter succeeded rs \<noteq> []
         then write_github_output env (lit ''succeeded_images'')
                (py_join (lit '','') (map image_name (filter succeeded rs))) fs2
         else fs2)"

definition report_results ::
    "environ \<Rightarrow> BuildResult list \<Rightarrow> pystr list \<times> filesystem
       \<Rightarrow> BuildResult list \<times> pystr list \<times> filesystem" where
  "report_results env rs io =
     (case io of
        (out, fs) \<Rightarrow>
          if is_github_actions env then
            let out1 = fold error_annotation (filter failed rs) out;
                out2 = fold notice_annotation (filter succeeded rs) out1;
                fs1 = write_github_summary env (py_join [LF] (summary_lines rs)) fs
            in (filter failed rs, out2, write_outputs env rs fs1)
          else (filter failed rs, out, fs))"

section \<open>Invariants of the monitor\<close>

text \<open>
  \<open>advances s s'\<close> relates a state \<open>s\<close> of the loop to a later state \<open>s'\<close>: no job leaves
  the completed set, no log offset is lost or decreases, a job completed in \<open>s\<close> keeps its
  offset and its stored result, and the calls of \<^verbatim>\<open>poll_build\<close> made in between are for
  jobs not completed in \<open>s\<close>.  \<open>session_inv\<close> is what holds of every state the loop reaches
  from its initial state: every job name has a log offset, the completed jobs are among
  the job names, every stored result is the result of a successful poll of its job (the
  last successful one), and the stored result of a completed job is in the terminal
  state.
\<close>

definition advances :: "Monitor \<Rightarrow> Monitor \<Rightarrow> bool" where
  "advances s s' \<longleftrightarrow>
     completed s \<subseteq> completed s'
     \<and> (\<forall>n off. log_offsets s n = Some off \<longrightarrow> (\<exists>off'. log_offsets s' n = Some off' \<and> off \<le> off'))
     \<and> (\<forall>n \<in> completed s. log_offsets s' n = log_offsets s n \<and> results s' n = results s n)
     \<and> (\<exists>ps. polls s' = polls s @ ps \<and> set ps \<inter> completed s = {})"

definition session_inv :: "Session \<Rightarrow> Monitor \<Rightarrow> bool" where
  "session_inv ses s \<longleftrightarrow>
     dom (log_offsets s) = set (image_names ses)
   \<and> completed s \<subseteq> set (image_names ses)
   \<and> (\<forall>n r. results s n = Some r \<longrightarrow>
        (\<exists>t r0 logs. t < length (polls s) \<and> polls s ! t = n
           \<and> poll_build (world ses t) (resource_group ses) n = Inr (r0, logs)
           \<and> r = r0\<lparr>portal_url := (case portal_urls ses n of None \<Rightarrow> [] | Some u \<Rightarrow> u)\<rparr>
           \<and> (\<forall>t'. t < t' \<and> t' < length (polls s) \<and> polls s ! t' = n \<longrightarrow>
                 (\<exists>ex. poll_build (world ses t') (resource_group ses) n = Inl ex))))
   \<and> (\<forall>n \<in> completed s. \<exists>r. results s n = Some r \<and> state r = TERMINATED)"

section \<open>Example inputs\<close>

text \<open>
  Concrete services, used where a statement is evaluated on an input.
  \<open>reported_group st ec\<close> is a container group whose only container, \<^verbatim>\<open>builder\<close>, reports
  the state \<open>st\<close> and the exit code \<open>ec\<close>; \<open>service groups logs\<close> answers a status request
  for job \<open>nm\<close> with \<open>groups nm\<close> and a log request with \<open>logs nm\<close>.
\<close>

definition builder :: "pystr \<Rightarrow> int option \<Rightarrow> Container" where
  "builder st ec =
     \<lparr>name = lit ''builder'',
      instance_view = Some \<lparr>current_state = Some
        \<lparr>cs_state = Some st, cs_exit_code = ec, cs_detail_status = Some [],
         cs_start_time = None, cs_finish_time = None\<rparr>\<rparr>\<rparr>"

definition reported_group :: "pystr \<Rightarrow> int option \<Rightarrow> ContainerGroup" where
  "reported_group st ec =
     \<lparr>containers = Some [builder st ec], provisioning_state = Some (lit ''Succeeded'')\<rparr>"

text \<open>A second container, failed with exit code 7, and a group with it after the first.\<close>

definition sidecar :: Container where
  "sidecar =
     \<lparr>name = lit ''sidecar'',
      instance_view = Some \<lparr>current_state = Some
        \<lparr>cs_state = Some TERMINATED, cs_exit_code = Some 7,
         cs_detail_status = Some (lit ''Error''),
         cs_start_time = Some (lit ''2026-01-01''), cs_finish_time = Some (lit ''2026-01-02'')\<rparr>\<rparr>\<rparr>"

definition with_sidecar :: "ContainerGroup \<Rightarrow> ContainerGroup" where
  "with_sidecar cg = cg\<lparr>containers := Some (containers_or_empty cg @ [sidecar])\<rparr>"

text \<open>
  An environment in CI mode with both sinks set, and a failed result whose image name
  has a line feed in it.
\<close>

definition ci_env :: environ where
  "ci_env = [lit ''GITHUB_ACTIONS'' \<mapsto> lit ''true'', lit ''GITHUB_OUTPUT'' \<mapsto> lit ''out.txt'',
             lit ''GITHUB_STEP_SUMMARY'' \<mapsto> lit ''summary.md'']"

definition result_of :: "pystr \<Rightarrow> int option \<Rightarrow> pystr \<Rightarrow> BuildResult" where
  "result_of nm ec tail =
     \<lparr>image_name = nm, state = TERMINATED, exit_code = ec, start_time = None,
      finish_time = None, detail_status = [], logs_tail = tail, portal_url = []\<rparr>"

definition service :: "(pystr \<Rightarrow> py_error + ContainerGroup) \<Rightarrow> (pystr \<Rightarrow> pystr) \<Rightarrow> Clients" where
  "service groups logs =
     \<lparr>group_get = (\<lambda>rg nm. groups nm), list_logs = (\<lambda>rg nm c. Inr (Some (logs nm)))\<rparr>"


text \<open>
  Job \<^verbatim>\<open>b\<close> is terminated (exit code 1) from the start; every other job is running during
  the first two polls and terminated (exit code 0) afterwards.
\<close>

definition b_first :: "nat \<Rightarrow> Clients" where
  "b_first t =
     service (\<lambda>nm. Inr (reported_group
                          (if nm = lit ''b'' \<or> 2 \<le> t then TERMINATED else lit ''Running'')
                          (if nm = lit ''b'' then Some 1 else if 2 \<le> t then Some 0 else None)))
             (\<lambda>nm. nm @ lit '' log'')"


text \<open>
  The job is running during the first two polls, with the log \<^verbatim>\<open>one\<close> and then the log
  \<^verbatim>\<open>one\ntwo\<close>, and terminated afterwards.
\<close>

definition growing :: "nat \<Rightarrow> Clients" where
  "growing t =
     service (\<lambda>nm. Inr (reported_group (if 2 \<le> t then TERMINATED else lit ''Running'')
                                        (if 2 \<le> t then Some 0 else None)))
             (\<lambda>nm. if t = 0 then lit ''one'' else lit ''one'' @ [LF] @ lit ''two'')"

text \<open>Two sessions for the jobs \<^verbatim>\<open>a\<close> and \<^verbatim>\<open>b\<close>, outside CI mode.\<close>

definition b_first_session :: Session where
  "b_first_session = new_session b_first Map.empty (lit ''rg'') [lit ''a'', lit ''b''] None"



text \<open>A session for the single job \<^verbatim>\<open>job\<close> against \<open>growing\<close>.\<close>

definition growing_session :: Session where
  "growing_session = new_session growing Map.empty (lit ''rg'') [lit ''job''] None"

section \<open>Properties\<close>

text \<open>
  C5.  For every BuildResult, \<open>succeeded\<close> holds exactly when the exit code is present
  and equal to 0, \<open>failed\<close> holds exactly when the exit code is present and non-zero;
  the two are never true together, and both are false when the exit code is absent.
\<close>

theorem C5_succeeded_failed:
  "(succeeded r \<longleftrightarrow> exit_code r = Some 0)
   \<and> (failed r \<longleftrightarrow> (\<exists>c. exit_code r = Some c \<and> c \<noteq> 0))
   \<and> \<not> (succeeded r \<and> failed r)
   \<and> (exit_code r = None \<longrightarrow> \<not> succeeded r \<and> \<not> failed r)"
  by (cases "exit_code r") (auto simp: succeeded_def failed_def)

theorem C5_succeeded_failed_witness:
  "exit_code \<lparr>image_name = lit ''img'', state = lit ''Running'', exit_code = None,
       start_time = None, finish_time = None, detail_status = [], logs_tail = [],
       portal_url = []\<rparr> = None
   \<and> \<not> succeeded \<lparr>image_name = lit ''img'', state = lit ''Running'', exit_code = None,
       start_time = None, finish_time = None, detail_status = [], logs_tail = [],
       portal_url = []\<rparr>
   \<and> \<not> failed \<lparr>image_name = lit ''img'', state = lit ''Running'', exit_code = None,
       start_time = None, finish_time = None, detail_status = [], logs_tail = [],
       portal_url = []\<rparr>"
  using C5_succeeded_failed [of "\<lparr>image_name = lit ''img'', state = lit ''Running'',
       exit_code = None, start_time = None, finish_time = None, detail_status = [],
       logs_tail = [], portal_url = []\<rparr>"]
  by simp

text \<open>
  C4.  When the log is not longer than the length already seen, the streamer writes
  nothing and returns the previous length; otherwise it writes the part of the log from
  the previous length on, as one chunk and unchanged (between the two group markers in
  grouping mode), and returns the length of the log.  A call repeated with the length
  returned writes nothing and returns that length again.
\<close>

theorem C4_stream_log_delta:
  "(int (length full) \<le> prev \<longrightarrow> stream_log_delta nm full prev g out = (prev, out))
   \<and> (prev < int (length full) \<longrightarrow>
        stream_log_delta nm full prev False out
          = (int (length full), out @ [py_slice_from full prev])
      \<and> stream_log_delta nm full prev True out
          = (int (length full),
             out @ [lit ''::group::'' @ nm @ lit '' (log update)'' @ [LF],
                    py_slice_from full prev,
                    lit ''::endgroup::'' @ [LF]])
      \<and> (0 \<le> prev \<longrightarrow> py_slice_from full prev = drop (nat prev) full
                        \<and> take (nat prev) full @ py_slice_from full prev = full))
   \<and> stream_log_delta nm full (fst (stream_log_delta nm full prev g out)) g' out'
        = (fst (stream_log_delta nm full prev g out), out')"
  by (auto simp: stream_log_delta_def Let_def print_line_def py_slice_from_def)

theorem C4_stream_log_delta_witness:
  "stream_log_delta (lit ''img'') (lit ''hello'') 5 False [] = (5, [])
   \<and> stream_log_delta (lit ''img'') (lit ''hello'') 9 False [] = (9, [])
   \<and> stream_log_delta (lit ''img'') (lit ''hello world'') 6 False [] = (11, [lit ''world''])"
  using C4_stream_log_delta [of "lit ''hello''" 5 "lit ''img''" False "[]" False "[]"]
        C4_stream_log_delta [of "lit ''hello''" 9 "lit ''img''" False "[]" False "[]"]
        C4_stream_log_delta [of "lit ''hello world''" 6 "lit ''img''" False "[]" False "[]"]
  by (simp add: lit_def py_slice_from_def)

subsection \<open>One job, one sweep\<close>

lemma stream_log_delta_mono: "prev \<le> fst (stream_log_delta nm full prev g out)"
  by (simp add: stream_log_delta_def Let_def)

lemma poll_build_fields:
  "poll_build cl rg nm = Inr (r, logs) \<Longrightarrow>
     image_name r = nm \<and> logs_tail r = tail_lines logs LOG_TAIL_LINES \<and> portal_url r = []"
  by (auto simp: poll_build_def Let_def split: sum.splits prod.splits option.splits)

lemma advances_refl: "advances s s"
  by (simp add: advances_def)

lemma advances_trans: "advances s s' \<Longrightarrow> advances s' s'' \<Longrightarrow> advances s s''"
  unfolding advances_def
  apply (intro conjI)
     apply blast
    apply (metis order_trans)
   apply (metis subsetD)
  apply (elim conjE exE)
  subgoal for ps ps'
    by (rule exI [of _ "ps @ ps'"]) auto
  done

lemma poll_one_Inr:
  assumes "poll_one ses nm s = Inr s'"
  shows "(nm \<in> completed s \<and> s' = s)
    \<or> (nm \<notin> completed s \<and> (\<exists>ex. poll_build (world ses (length (polls s))) (resource_group ses) nm = Inl ex)
         \<and> s' = s\<lparr>polls := polls s @ [nm]\<rparr>)
    \<or> (nm \<notin> completed s \<and> (\<exists>r logs off. poll_build (world ses (length (polls s))) (resource_group ses) nm = Inr (r, logs)
         \<and> log_offsets s nm = Some off
         \<and> s' = s\<lparr>polls := polls s @ [nm],
                  results := (results s)(nm \<mapsto> r\<lparr>portal_url := (case portal_urls ses nm of None \<Rightarrow> [] | Some u \<Rightarrow> u)\<rparr>),
                  log_offsets := (log_offsets s)(nm \<mapsto> fst (stream_log_delta nm logs off (in_github ses \<and> length (image_names ses) > 1) (stdout s))),
                  stdout := snd (stream_log_delta nm logs off (in_github ses \<and> length (image_names ses) > 1) (stdout s)),
                  completed := (if state r = TERMINATED then insert nm (completed s) else completed s)\<rparr>))"
  using assms
  by (auto simp: poll_one_def Let_def split: if_splits sum.splits prod.splits option.splits)

lemma poll_one_advances: "poll_one ses nm s = Inr s' \<Longrightarrow> advances s s'"
  apply (drule poll_one_Inr)
  apply (elim disjE conjE exE)
    apply (simp add: advances_refl)
   apply (simp add: advances_def)
  apply (auto simp: advances_def stream_log_delta_mono)
  done

lemma sweep_advances: "sweep ses nms s = Inr s' \<Longrightarrow> advances s s'"
proof (induction nms arbitrary: s)
  case Nil
  then show ?case by (simp add: advances_refl)
next
  case (Cons nm nms)
  then obtain s1 where 1: "poll_one ses nm s = Inr s1" and 2: "sweep ses nms s1 = Inr s'"
    by (auto split: sum.splits)
  from poll_one_advances [OF 1] Cons.IH [OF 2] show ?case by (rule advances_trans)
qed

lemma initial_inv: "session_inv ses (initial_monitor ses)"
  by (auto simp: session_inv_def initial_monitor_def split: if_splits)

lemma poll_one_inv:
  assumes inv: "session_inv ses s" and nm: "nm \<in> set (image_names ses)"
  shows "\<exists>s'. poll_one ses nm s = Inr s' \<and> session_inv ses s'"
proof -
  from inv nm have "nm \<in> dom (log_offsets s)"
    by (simp add: session_inv_def)
  then obtain off where off: "log_offsets s nm = Some off"
    by blast
  show ?thesis
  proof (cases "nm \<in> completed s")
    case True
    then show ?thesis using inv by (simp add: poll_one_def)
  next
    case notdone: False
    show ?thesis
    proof (cases "poll_build (world ses (length (polls s))) (resource_group ses) nm")
      case (Inl ex)
      have "session_inv ses (s\<lparr>polls := polls s @ [nm]\<rparr>)"
        unfolding session_inv_def
      proof (intro conjI allI impI)
        show "dom (log_offsets (s\<lparr>polls := polls s @ [nm]\<rparr>)) = set (image_names ses)"
          using inv by (simp add: session_inv_def)
        show "completed (s\<lparr>polls := polls s @ [nm]\<rparr>) \<subseteq> set (image_names ses)"
          using inv by (simp add: session_inv_def)
        show "\<forall>n \<in> completed (s\<lparr>polls := polls s @ [nm]\<rparr>).
                \<exists>r. results (s\<lparr>polls := polls s @ [nm]\<rparr>) n = Some r \<and> state r = TERMINATED"
          using inv by (simp add: session_inv_def)
      next
        fix n r'
        assume "results (s\<lparr>polls := polls s @ [nm]\<rparr>) n = Some r'"
        then have "results s n = Some r'" by simp
        with inv obtain t r0 lg where t: "t < length (polls s)" "polls s ! t = n"
            "poll_build (world ses t) (resource_group ses) n = Inr (r0, lg)"
            "r' = r0\<lparr>portal_url := (case portal_urls ses n of None \<Rightarrow> [] | Some u \<Rightarrow> u)\<rparr>"
            "\<forall>t'. t < t' \<and> t' < length (polls s) \<and> polls s ! t' = n \<longrightarrow>
               (\<exists>ex. poll_build (world ses t') (resource_group ses) n = Inl ex)"
          unfolding session_inv_def by blast
        show "\<exists>t r0 logs. t < length (polls (s\<lparr>polls := polls s @ [nm]\<rparr>))
             \<and> polls (s\<lparr>polls := polls s @ [nm]\<rparr>) ! t = n
             \<and> poll_build (world ses t) (resource_group ses) n = Inr (r0, logs)
             \<and> r' = r0\<lparr>portal_url := (case portal_urls ses n of None \<Rightarrow> [] | Some u \<Rightarrow> u)\<rparr>
             \<and> (\<forall>t'. t < t' \<and> t' < length (polls (s\<lparr>polls := polls s @ [nm]\<rparr>))
                      \<and> polls (s\<lparr>polls := polls s @ [nm]\<rparr>) ! t' = n \<longrightarrow>
                   (\<exists>ex. poll_build (world ses t') (resource_group ses) n = Inl ex))"
          using t Inl
          by (intro exI [of _ t] exI [of _ r0] exI [of _ lg])
             (auto simp: nth_append less_Suc_eq)
      qed
      then show ?thesis using notdone Inl by (simp add: poll_one_def)
    next
      case (Inr p)
      obtain r logs where p: "p = (r, logs)" by (cases p)
      define url where "url = (case portal_urls ses nm of None \<Rightarrow> [] | Some u \<Rightarrow> u)"
      define d where "d = stream_log_delta nm logs off
          (in_github ses \<and> length (image_names ses) > 1) (stdout s)"
      define s' where "s' = s\<lparr>polls := polls s @ [nm],
          results := (results s)(nm \<mapsto> r\<lparr>portal_url := url\<rparr>),
          log_offsets := (log_offsets s)(nm \<mapsto> fst d),
          stdout := snd d,
          completed := (if state r = TERMINATED then insert nm (completed s) else completed s)\<rparr>"
      have step: "poll_one ses nm s = Inr s'"
        using notdone Inr p off
        by (auto simp: poll_one_def Let_def s'_def d_def url_def split: prod.splits)
      have "session_inv ses s'"
        unfolding session_inv_def
      proof (intro conjI)
        show "dom (log_offsets s') = set (image_names ses)"
          using inv nm by (auto simp: session_inv_def s'_def)
        show "completed s' \<subseteq> set (image_names ses)"
          using inv nm by (auto simp: session_inv_def s'_def)
        show "\<forall>n \<in> completed s'. \<exists>r. results s' n = Some r \<and> state r = TERMINATED"
          using inv notdone by (auto simp: session_inv_def s'_def)
        show "\<forall>n r. results s' n = Some r \<longrightarrow>
          (\<exists>t r0 logs. t < length (polls s') \<and> polls s' ! t = n
             \<and> poll_build (world ses t) (resource_group ses) n = Inr (r0, logs)
             \<and> r = r0\<lparr>portal_url := (case portal_urls ses n of None \<Rightarrow> [] | Some u \<Rightarrow> u)\<rparr>
             \<and> (\<forall>t'. t < t' \<and> t' < length (polls s') \<and> polls s' ! t' = n \<longrightarrow>
                   (\<exists>ex. poll_build (world ses t') (resource_group ses) n = Inl ex)))"
        proof (intro allI impI)
          fix n r'
          assume res: "results s' n = Some r'"
          show "\<exists>t r0 logs. t < length (polls s') \<and> polls s' ! t = n
             \<and> poll_build (world ses t) (resource_group ses) n = Inr (r0, logs)
             \<and> r' = r0\<lparr>portal_url := (case portal_urls ses n of None \<Rightarrow> [] | Some u \<Rightarrow> u)\<rparr>
             \<and> (\<forall>t'. t < t' \<and> t' < length (polls s') \<and> polls s' ! t' = n \<longrightarrow>
                   (\<exists>ex. poll_build (world ses t') (resource_group ses) n = Inl ex))"
          proof (cases "n = nm")
            case True
            with res have "r' = r\<lparr>portal_url := url\<rparr>" by (simp add: s'_def)
            then show ?thesis
              using True Inr p
              by (intro exI [of _ "length (polls s)"] exI [of _ r] exI [of _ logs])
                 (auto simp: s'_def url_def)
          next
            case neq: False
            with res have "results s n = Some r'" by (simp add: s'_def)
            with inv obtain t r0 lg where t: "t < length (polls s)" "polls s ! t = n"
                "poll_build (world ses t) (resource_group ses) n = Inr (r0, lg)"
                "r' = r0\<lparr>portal_url := (case portal_urls ses n of None \<Rightarrow> [] | Some u \<Rightarrow> u)\<rparr>"
                "\<forall>t'. t < t' \<and> t' < length (polls s) \<and> polls s ! t' = n \<longrightarrow>
                   (\<exists>ex. poll_build (world ses t') (resource_group ses) n = Inl ex)"
              unfolding session_inv_def by blast
            show ?thesis
              using t neq
              by (intro exI [of _ t] exI [of _ r0] exI [of _ lg])
                 (auto simp: s'_def nth_append less_Suc_eq)
          qed
        qed
      qed
      with step show ?thesis by blast
    qed
  qed
qed

subsection \<open>The loop\<close>

lemma sweep_inv:
  "session_inv ses s \<Longrightarrow> set nms \<subseteq> set (image_names ses) \<Longrightarrow>
     \<exists>s'. sweep ses nms s = Inr s' \<and> session_inv ses s'"
proof (induction nms arbitrary: s)
  case Nil
  then show ?case by simp
next
  case (Cons nm nms)
  from poll_one_inv [of ses s nm] Cons.prems
  obtain s1 where 1: "poll_one ses nm s = Inr s1" "session_inv ses s1" by auto
  from Cons.IH [OF 1(2)] Cons.prems(2)
  obtain s' where "sweep ses nms s1 = Inr s'" "session_inv ses s'" by auto
  with 1 show ?case by simp
qed

lemma session_inv_sleeps: "session_inv ses (s\<lparr>sleeps := k\<rparr>) = session_inv ses s"
  by (simp add: session_inv_def)

lemma advances_sleeps: "advances s (s\<lparr>sleeps := k\<rparr>)"
  by (simp add: advances_def)

lemma loop_body_inv:
  "session_inv ses s \<Longrightarrow> \<exists>s'. loop_body ses s = Inr s' \<and> session_inv ses s'"
  using sweep_inv [of ses s "image_names ses"]
  by (auto simp: loop_body_def session_inv_sleeps)

lemma loop_body_advances: "loop_body ses s = Inr s' \<Longrightarrow> advances s s'"
  by (auto simp: loop_body_def split: sum.splits if_splits
      dest!: sweep_advances intro: advances_trans advances_sleeps)

lemma after_sweeps_inv:
  "session_inv ses s \<Longrightarrow> \<exists>s'. after_sweeps ses k s = Inr s' \<and> session_inv ses s'"
proof (induction k arbitrary: s)
  case 0
  then show ?case by simp
next
  case (Suc k)
  from loop_body_inv [OF Suc.prems]
  obtain s1 where 1: "loop_body ses s = Inr s1" "session_inv ses s1" by auto
  from Suc.IH [OF 1(2)] 1 Suc.prems show ?case by auto
qed

lemma after_sweeps_advances: "after_sweeps ses k s = Inr s' \<Longrightarrow> advances s s'"
proof (induction k arbitrary: s)
  case 0
  then show ?case by (simp add: advances_refl)
next
  case (Suc k)
  show ?case
  proof (cases "pending ses s")
    case True
    with Suc.prems obtain s1 where 1: "loop_body ses s = Inr s1" "after_sweeps ses k s1 = Inr s'"
      by (auto split: sum.splits)
    from loop_body_advances [OF 1(1)] Suc.IH [OF 1(2)] show ?thesis by (rule advances_trans)
  next
    case False
    with Suc.prems show ?thesis by (simp add: advances_refl)
  qed
qed

lemma after_sweeps_add:
  "after_sweeps ses (j + k) s =
     (case after_sweeps ses j s of Inl ex \<Rightarrow> Inl ex | Inr s1 \<Rightarrow> after_sweeps ses k s1)"
proof (induction j arbitrary: s)
  case 0
  then show ?case by simp
next
  case (Suc j)
  show ?case
  proof (cases "pending ses s")
    case True
    then show ?thesis using Suc.IH by (auto split: sum.splits)
  next
    case False
    then show ?thesis by (cases k) auto
  qed
qed

text \<open>\<open>wait_loop\<close> and \<open>after_sweeps\<close> are the same loop.\<close>

lemma wait_loop_after_sweeps:
  assumes "wait_loop ses s = Some r"
  shows "\<exists>k. after_sweeps ses k s = r \<and> (case r of Inl ex \<Rightarrow> True | Inr s' \<Rightarrow> \<not> pending ses s')"
proof (rule wait_loop.raw_induct
    [where P = "\<lambda>ses s r. \<exists>k. after_sweeps ses k s = r
        \<and> (case r of Inl ex \<Rightarrow> True | Inr s' \<Rightarrow> \<not> pending ses s')", OF _ assms], goal_cases)
  case (1 f ses s r)
  show ?case
  proof (cases "pending ses s")
    case False
    with 1(2) have "r = Inr s" by simp
    with False show ?thesis by (intro exI [of _ 0]) simp
  next
    case True
    show ?thesis
    proof (cases "loop_body ses s")
      case (Inl ex)
      with True 1(2) have "r = Inl ex" by simp
      with True Inl show ?thesis by (intro exI [of _ 1]) simp
    next
      case (Inr s1)
      with True 1(2) have "f ses s1 = Some r" by simp
      from 1(1) [OF this] obtain k where
        "after_sweeps ses k s1 = r \<and> (case r of Inl ex \<Rightarrow> True | Inr s' \<Rightarrow> \<not> pending ses s')" ..
      with True Inr show ?thesis by (intro exI [of _ "Suc k"]) simp
    qed
  qed
qed

lemma after_sweeps_wait_loop:
  "after_sweeps ses k s = Inr s' \<Longrightarrow> \<not> pending ses s' \<Longrightarrow> wait_loop ses s = Some (Inr s')"
proof (induction k arbitrary: s)
  case 0
  then show ?case by (simp add: wait_loop.simps)
next
  case (Suc k)
  show ?case
  proof (cases "pending ses s")
    case True
    with Suc.prems obtain s1 where 1: "loop_body ses s = Inr s1" "after_sweeps ses k s1 = Inr s'"
      by (auto split: sum.splits)
    from Suc.IH [OF 1(2) Suc.prems(2)] True 1(1) show ?thesis
      by (subst wait_loop.simps) simp
  next
    case False
    with Suc.prems show ?thesis by (subst wait_loop.simps) simp
  qed
qed

subsection \<open>Leaving the loop\<close>

lemma done_facts:
  assumes inv: "session_inv ses s" and np: "\<not> pending ses s"
  shows "completed s = set (image_names ses) \<and> distinct (image_names ses)"
proof -
  have sub: "completed s \<subseteq> set (image_names ses)" using inv by (simp add: session_inv_def)
  have "card (completed s) \<le> card (set (image_names ses))"
    using sub by (simp add: card_mono)
  moreover have "card (set (image_names ses)) \<le> length (image_names ses)"
    by (rule card_length)
  moreover have "length (image_names ses) \<le> card (completed s)"
    using np by (simp add: pending_def)
  ultimately have c: "card (set (image_names ses)) = length (image_names ses)"
    and e: "card (completed s) = card (set (image_names ses))" by auto
  from c have "distinct (image_names ses)" by (rule card_distinct)
  moreover from sub e have "completed s = set (image_names ses)"
    by (simp add: card_subset_eq)
  ultimately show ?thesis by simp
qed

lemma all_completed_not_pending:
  assumes "set (image_names ses) \<subseteq> completed s" "session_inv ses s" "distinct (image_names ses)"
  shows "\<not> pending ses s"
proof -
  from assms(1,2) have "completed s = set (image_names ses)" by (auto simp: session_inv_def)
  with assms(3) show ?thesis by (simp add: pending_def distinct_card)
qed

lemma pending_some_job:
  assumes "pending ses s" "session_inv ses s" "distinct (image_names ses)"
  shows "\<exists>n \<in> set (image_names ses). n \<notin> completed s"
  using all_completed_not_pending [of ses s] assms by auto

lemma not_distinct_pending:
  assumes inv: "session_inv ses s" and nd: "\<not> distinct (image_names ses)"
  shows "pending ses s"
  using done_facts [OF inv] nd by auto

lemma collect_results_total:
  "\<forall>n \<in> set nms. \<exists>r. res n = Some r \<Longrightarrow>
     \<exists>rs. collect_results res nms = Inr rs \<and> length rs = length nms
        \<and> (\<forall>i < length nms. res (nms ! i) = Some (rs ! i))"
proof (induction nms)
  case Nil
  then show ?case by simp
next
  case (Cons nm nms)
  then obtain r where r: "res nm = Some r" by auto
  from Cons obtain rs where rs: "collect_results res nms = Inr rs" "length rs = length nms"
      "\<forall>i < length nms. res (nms ! i) = Some (rs ! i)" by auto
  show ?case
    using r rs by (intro exI [of _ "r # rs"]) (auto simp: nth_Cons split: nat.splits)
qed

lemma poll_one_late:
  assumes late: "\<forall>t \<ge> T. \<forall>n \<in> set (image_names ses).
        \<exists>r logs. poll_build (world ses t) (resource_group ses) n = Inr (r, logs) \<and> state r = TERMINATED"
    and nm: "nm \<in> set (image_names ses)" and T: "T \<le> length (polls s)"
    and step: "poll_one ses nm s = Inr s'"
  shows "nm \<in> completed s' \<and> T \<le> length (polls s')"
proof -
  from late nm T obtain r logs where
    p: "poll_build (world ses (length (polls s))) (resource_group ses) nm = Inr (r, logs)"
       "state r = TERMINATED" by blast
  from poll_one_Inr [OF step] p T show ?thesis by auto
qed

lemma sweep_late:
  assumes late: "\<forall>t \<ge> T. \<forall>n \<in> set (image_names ses).
        \<exists>r logs. poll_build (world ses t) (resource_group ses) n = Inr (r, logs) \<and> state r = TERMINATED"
  shows "set nms \<subseteq> set (image_names ses) \<Longrightarrow> T \<le> length (polls s) \<Longrightarrow>
     sweep ses nms s = Inr s' \<Longrightarrow> set nms \<subseteq> completed s' \<and> T \<le> length (polls s')"
proof (induction nms arbitrary: s)
  case Nil
  then show ?case by simp
next
  case (Cons nm nms)
  from Cons.prems obtain s1 where 1: "poll_one ses nm s = Inr s1" and 2: "sweep ses nms s1 = Inr s'"
    by (auto split: sum.splits)
  from poll_one_late [OF late _ Cons.prems(2) 1] Cons.prems(1)
  have 3: "nm \<in> completed s1" "T \<le> length (polls s1)" by auto
  from Cons.IH [OF _ 3(2) 2] Cons.prems(1)
  have 4: "set nms \<subseteq> completed s'" "T \<le> length (polls s')" by auto
  from sweep_advances [OF 2] 3(1) have "nm \<in> completed s'" by (auto simp: advances_def)
  with 4 show ?case by simp
qed

lemma advances_polls_length: "advances s s' \<Longrightarrow> length (polls s) \<le> length (polls s')"
  by (auto simp: advances_def)

lemma sweep_progress:
  "\<exists>n \<in> set nms. n \<notin> completed s \<Longrightarrow> sweep ses nms s = Inr s' \<Longrightarrow>
     length (polls s) < length (polls s')"
proof (induction nms arbitrary: s)
  case Nil
  then show ?case by simp
next
  case (Cons nm nms)
  from Cons.prems obtain s1 where 1: "poll_one ses nm s = Inr s1" and 2: "sweep ses nms s1 = Inr s'"
    by (auto split: sum.splits)
  show ?case
  proof (cases "nm \<in> completed s")
    case True
    with poll_one_Inr [OF 1] have "s1 = s" by auto
    with Cons.IH [of s] Cons.prems(1) True 2 show ?thesis by auto
  next
    case False
    with poll_one_Inr [OF 1] have "length (polls s1) = Suc (length (polls s))" by auto
    with advances_polls_length [OF sweep_advances [OF 2]] show ?thesis by simp
  qed
qed

lemma loop_terminates:
  assumes late: "\<forall>t \<ge> T. \<forall>n \<in> set (image_names ses).
        \<exists>r logs. poll_build (world ses t) (resource_group ses) n = Inr (r, logs) \<and> state r = TERMINATED"
    and dist: "distinct (image_names ses)"
  shows "session_inv ses s \<Longrightarrow>
     \<exists>k s'. after_sweeps ses k s = Inr s' \<and> \<not> pending ses s' \<and> session_inv ses s'"
proof (induction "T - length (polls s)" arbitrary: s rule: less_induct)
  case less
  show ?case
  proof (cases "pending ses s")
    case False
    with less.prems show ?thesis by (intro exI [of _ 0]) simp
  next
    case True
    from sweep_inv [OF less.prems, of "image_names ses"]
    obtain s1 where sw: "sweep ses (image_names ses) s = Inr s1" and inv1: "session_inv ses s1"
      by auto
    define s2 where "s2 = (if pending ses s1 then s1\<lparr>sleeps := sleeps s1 + 1\<rparr> else s1)"
    have lb: "loop_body ses s = Inr s2" using sw by (simp add: loop_body_def s2_def)
    have inv2: "session_inv ses s2" using inv1 by (simp add: s2_def session_inv_sleeps)
    have pend2: "pending ses s2 = pending ses s1" by (simp add: s2_def pending_def)
    show ?thesis
    proof (cases "pending ses s1")
      case False
      with pend2 inv2 lb True show ?thesis by (intro exI [of _ 1] exI [of _ s2]) simp
    next
      case p1: True
      have "length (polls s) < T"
      proof (rule ccontr)
        assume "\<not> length (polls s) < T"
        then have "T \<le> length (polls s)" by simp
        from sweep_late [OF late _ this sw] have "set (image_names ses) \<subseteq> completed s1" by simp
        from all_completed_not_pending [OF this inv1 dist] p1 show False by simp
      qed
      moreover from pending_some_job [OF True less.prems dist] sweep_progress [OF _ sw]
      have "length (polls s) < length (polls s1)" by simp
      moreover have "polls s2 = polls s1" by (simp add: s2_def)
      ultimately have "T - length (polls s2) < T - length (polls s)" by simp
      from less.hyps [OF this inv2] obtain k s' where
        "after_sweeps ses k s2 = Inr s'" "\<not> pending ses s'" "session_inv ses s'" by blast
      with True lb show ?thesis by (intro exI [of _ "Suc k"] exI [of _ s']) simp
    qed
  qed
qed

subsection \<open>The result of a session\<close>

lemma new_session_simps [simp]:
  "world (new_session w env rg nms urls) = w"
  "resource_group (new_session w env rg nms urls) = rg"
  "image_names (new_session w env rg nms urls) = nms"
  "in_github (new_session w env rg nms urls) = is_github_actions env"
  by (simp_all add: new_session_def)

lemma wait_loop_result:
  assumes "wait_loop ses (initial_monitor ses) = Some x"
  shows "\<exists>s. x = Inr s \<and> session_inv ses s \<and> \<not> pending ses s"
proof -
  from wait_loop_after_sweeps [OF assms] obtain k where
    k: "after_sweeps ses k (initial_monitor ses) = x"
       "case x of Inl ex \<Rightarrow> True | Inr s' \<Rightarrow> \<not> pending ses s'" by blast
  from after_sweeps_inv [OF initial_inv, of ses k] obtain s where
    "after_sweeps ses k (initial_monitor ses) = Inr s" "session_inv ses s" by blast
  with k show ?thesis by auto
qed

lemma finish_session_result:
  assumes inv: "session_inv ses s" and np: "\<not> pending ses s"
  shows "\<exists>rs s1. finish_session ses s = Inr (rs, s1)
      \<and> length rs = length (image_names ses) \<and> map image_name rs = image_names ses
      \<and> distinct (image_names ses) \<and> completed s1 = set (image_names ses)
      \<and> results s1 = results s \<and> polls s1 = polls s \<and> sleeps s1 = sleeps s
      \<and> (\<forall>i < length (image_names ses).
            results s1 (image_names ses ! i) = Some (rs ! i) \<and> state (rs ! i) = TERMINATED)"
proof -
  from done_facts [OF inv np] have c: "completed s = set (image_names ses)"
    and d: "distinct (image_names ses)" by simp_all
  have all: "\<forall>n \<in> set (image_names ses). \<exists>r. results s n = Some r"
    using inv c by (auto simp: session_inv_def)
  from collect_results_total [OF all] obtain rs where rs:
    "collect_results (results s) (image_names ses) = Inr rs" "length rs = length (image_names ses)"
    "\<forall>i < length (image_names ses). results s (image_names ses ! i) = Some (rs ! i)" by blast
  have st: "state (rs ! i) = TERMINATED \<and> image_name (rs ! i) = image_names ses ! i"
    if i: "i < length (image_names ses)" for i
  proof -
    from i have mem: "image_names ses ! i \<in> completed s" using c by simp
    from rs(3) i have r: "results s (image_names ses ! i) = Some (rs ! i)" by simp
    from inv mem r have "state (rs ! i) = TERMINATED" by (auto simp: session_inv_def)
    moreover from inv r obtain r0 logs t where
      "poll_build (world ses t) (resource_group ses) (image_names ses ! i) = Inr (r0, logs)"
      "rs ! i = r0\<lparr>portal_url := (case portal_urls ses (image_names ses ! i) of
                                     None \<Rightarrow> [] | Some u \<Rightarrow> u)\<rparr>"
      unfolding session_inv_def by blast
    with poll_build_fields [OF this(1)] have "image_name (rs ! i) = image_names ses ! i" by simp
    ultimately show ?thesis by simp
  qed
  have names: "map image_name rs = image_names ses"
    using rs(2) st by (auto simp: list_eq_iff_nth_eq)
  define s1 where "s1 = (if in_github ses
      then s\<lparr>stdout := print_line (lit ''::endgroup::'') (stdout s)\<rparr> else s)"
  have "finish_session ses s = Inr (rs, s1)"
    using rs(1) by (simp add: finish_session_def s1_def Let_def)
  moreover have "results s1 = results s" "completed s1 = completed s" "polls s1 = polls s"
      "sleeps s1 = sleeps s"
    by (simp_all add: s1_def)
  ultimately show ?thesis using rs(2,3) st names c d by auto
qed

lemma wait_for_builds_returns:
  assumes "wait_for_builds w env rg nms urls = Some x"
  shows "\<exists>rs s. x = Inr (rs, s) \<and> length rs = length nms \<and> map image_name rs = nms
      \<and> distinct nms \<and> completed s = set nms
      \<and> (\<forall>i < length nms. results s (nms ! i) = Some (rs ! i) \<and> state (rs ! i) = TERMINATED)"
proof -
  define ses where "ses = new_session w env rg nms urls"
  from assms obtain y where y: "wait_loop ses (initial_monitor ses) = Some y"
    by (auto simp: wait_for_builds_def Let_def ses_def split: option.splits)
  from wait_loop_result [OF y] obtain s where s: "y = Inr s" "session_inv ses s" "\<not> pending ses s"
    by blast
  from assms y s(1) have x: "x = finish_session ses s"
    by (simp add: wait_for_builds_def Let_def ses_def)
  from finish_session_result [OF s(2,3)] x show ?thesis
    by (auto simp: ses_def)
qed


lemma wait_for_builds_total:
  assumes dist: "distinct nms"
    and late: "\<forall>t \<ge> T. \<forall>n \<in> set nms.
        \<exists>r logs. poll_build (w t) rg n = Inr (r, logs) \<and> state r = TERMINATED"
  shows "\<exists>rs s. wait_for_builds w env rg nms urls = Some (Inr (rs, s))"
proof -
  define ses where "ses = new_session w env rg nms urls"
  have late': "\<forall>t \<ge> T. \<forall>n \<in> set (image_names ses).
        \<exists>r logs. poll_build (world ses t) (resource_group ses) n = Inr (r, logs) \<and> state r = TERMINATED"
    using late by (simp add: ses_def)
  have dist': "distinct (image_names ses)" using dist by (simp add: ses_def)
  from loop_terminates [OF late' dist' initial_inv] obtain k s where
    k: "after_sweeps ses k (initial_monitor ses) = Inr s" "\<not> pending ses s" "session_inv ses s"
    by blast
  from after_sweeps_wait_loop [OF k(1,2)]
  have "wait_for_builds w env rg nms urls = Some (finish_session ses s)"
    by (simp add: wait_for_builds_def Let_def ses_def)
  with finish_session_result [OF k(3,2)] show ?thesis by auto
qed

lemma wait_for_builds_empty:
  "\<exists>s. wait_for_builds w env rg [] urls = Some (Inr ([], s)) \<and> polls s = [] \<and> sleeps s = 0"
proof -
  define ses where "ses = new_session w env rg [] urls"
  have "\<not> pending ses (initial_monitor ses)"
    by (simp add: pending_def ses_def)
  then have "wait_loop ses (initial_monitor ses) = Some (Inr (initial_monitor ses))"
    by (subst wait_loop.simps) simp
  then show ?thesis
    by (simp add: wait_for_builds_def Let_def ses_def [symmetric] finish_session_def)
       (simp add: ses_def initial_monitor_def)
qed

lemma poll_reported:
  "poll_build (service (\<lambda>nm. Inr (reported_group (st nm) (ec nm))) logs) rg nm =
     Inr (\<lparr>image_name = nm, state = or_else (Some (st nm)) (lit ''Succeeded''),
           exit_code = ec nm, start_time = None, finish_time = None, detail_status = [],
           logs_tail = tail_lines (logs nm) LOG_TAIL_LINES, portal_url = []\<rparr>, logs nm)"
  by (simp add: poll_build_def service_def reported_group_def builder_def
      get_container_state_def containers_or_empty_def fetch_logs_def Let_def time_text_def lit_def)


subsection \<open>Evaluation on concrete inputs\<close>

lemmas text_defs = lit_def LF_def isspace_def is_linebreak_def py_strip_def splitlines_def
  tail_lines_def py_slice_from_def LOG_TAIL_LINES_def TERMINATED_def escape_newlines_def
  str_int_def print_line_def

lemmas monitor_defs = pending_def loop_body_def poll_one_def initial_monitor_def new_session_def
  is_github_actions_def stream_log_delta_def finish_session_def Let_def

text \<open>
  Jobs \<^verbatim>\<open>a\<close> and \<^verbatim>\<open>b\<close> against \<open>b_first\<close>: \<^verbatim>\<open>b\<close> is terminated at the first sweep, \<^verbatim>\<open>a\<close> only
  at the second, and the list returned is in the order of the argument.
\<close>

lemma wait_for_builds_b_first:
  "map_option (map_sum id (\<lambda>(rs, s). (map image_name rs, map exit_code rs, polls s, sleeps s, stdout s)))
     (wait_for_builds b_first Map.empty (lit ''rg'') [lit ''a'', lit ''b''] None)
   = Some (Inr ([lit ''a'', lit ''b''], [Some 0, Some 1], [lit ''a'', lit ''b'', lit ''a''], 1,
          [lit ''a log'', lit ''b log'']))"
  by (simp add: wait_for_builds_def wait_loop.simps monitor_defs poll_reported b_first_def text_defs)

subsection \<open>C1: the order of the results\<close>

text \<open>
  Whenever \<open>wait_for_builds\<close> returns, it returns without an exception one BuildResult
  for each job name, in the order of the caller's list: the \<open>i\<close>-th result carries the
  \<open>i\<close>-th name and is the result stored for that job, whose state is the terminal one;
  the order in which the jobs terminated plays no part, the service being arbitrary.
  For pairwise distinct names it does return when, from some poll on, every status
  request for a listed job succeeds and reports the terminal state.  For the empty list
  it returns the empty list at once, with no poll and no sleep.
\<close>

lemma wait_for_builds_order:
  "(wait_for_builds w env rg nms urls = Some x \<longrightarrow>
      (\<exists>rs s. x = Inr (rs, s) \<and> length rs = length nms \<and> map image_name rs = nms
         \<and> (\<forall>i < length nms. results s (nms ! i) = Some (rs ! i) \<and> state (rs ! i) = TERMINATED)))
   \<and> (distinct nms
        \<and> (\<exists>T. \<forall>t \<ge> T. \<forall>n \<in> set nms.
               \<exists>r logs. poll_build (w t) rg n = Inr (r, logs) \<and> state r = TERMINATED)
       \<longrightarrow> (\<exists>rs s. wait_for_builds w env rg nms urls = Some (Inr (rs, s))))
   \<and> (\<exists>s. wait_for_builds w env rg [] urls = Some (Inr ([], s)) \<and> polls s = [] \<and> sleeps s = 0)"
proof (intro conjI impI)
  assume "wait_for_builds w env rg nms urls = Some x"
  from wait_for_builds_returns [OF this]
  show "\<exists>rs s. x = Inr (rs, s) \<and> length rs = length nms \<and> map image_name rs = nms
         \<and> (\<forall>i < length nms. results s (nms ! i) = Some (rs ! i) \<and> state (rs ! i) = TERMINATED)"
    by blast
next
  assume "distinct nms
        \<and> (\<exists>T. \<forall>t \<ge> T. \<forall>n \<in> set nms.
               \<exists>r logs. poll_build (w t) rg n = Inr (r, logs) \<and> state r = TERMINATED)"
  then show "\<exists>rs s. wait_for_builds w env rg nms urls = Some (Inr (rs, s))"
    using wait_for_builds_total by blast
next
  show "\<exists>s. wait_for_builds w env rg [] urls = Some (Inr ([], s)) \<and> polls s = [] \<and> sleeps s = 0"
    by (rule wait_for_builds_empty)
qed


subsection \<open>Jobs within a sweep\<close>







subsection \<open>C2: offsets and completion only grow\<close>

lemma b_first_one_sweep:
  "map_sum id (\<lambda>s. (completed s, polls s, log_offsets s (lit ''b'')))
     (after_sweeps b_first_session (Suc 0) (initial_monitor b_first_session))
   = Inr ({lit ''b''}, [lit ''a'', lit ''b''], Some 5)"
  by (simp add: b_first_session_def monitor_defs poll_reported b_first_def text_defs)

lemma wait_loop_advances: "wait_loop ses s = Some (Inr s') \<Longrightarrow> advances s s'"
  using wait_loop_after_sweeps [of ses s "Inr s'"] after_sweeps_advances by blast

text \<open>
  C2.  Write \<open>advances s s'\<close> when every job completed in \<open>s\<close> is completed in \<open>s'\<close>, every
  log offset of \<open>s\<close> is still defined in \<open>s'\<close> and has not decreased, a job completed in \<open>s\<close>
  has in \<open>s'\<close> the offset and the stored result it had in \<open>s\<close>, and no call of
  \<^verbatim>\<open>poll_build\<close> made between the two states is for a job completed in \<open>s\<close>.  Then the
  state after \<open>j\<close> iterations of the loop advances to the state after \<open>k\<close> more; a state
  advances to the state at the end of a sweep over any jobs, and to the state in which
  the loop ends.  Visiting a completed job leaves the state as it is.  From the initial
  state the loop reaches a state, without an exception, after any number of iterations.
\<close>

theorem C2_offsets_and_completion_monotone:
  "(after_sweeps ses j s0 = Inr s \<and> after_sweeps ses (j + k) s0 = Inr s' \<longrightarrow> advances s s')
   \<and> (sweep ses nms s = Inr s' \<longrightarrow> advances s s')
   \<and> (wait_loop ses s = Some (Inr s') \<longrightarrow> advances s s')
   \<and> (advances s s' \<longrightarrow>
         completed s \<subseteq> completed s'
       \<and> (\<forall>n off. log_offsets s n = Some off \<longrightarrow>
             (\<exists>off'. log_offsets s' n = Some off' \<and> off \<le> off'))
       \<and> (\<forall>n \<in> completed s. log_offsets s' n = log_offsets s n \<and> results s' n = results s n)
       \<and> (\<exists>ps. polls s' = polls s @ ps \<and> set ps \<inter> completed s = {}))
   \<and> (nm \<in> completed s \<longrightarrow> poll_one ses nm s = Inr s)
   \<and> (\<exists>s1. after_sweeps ses k (initial_monitor ses) = Inr s1)"
proof (intro conjI impI)
  assume "after_sweeps ses j s0 = Inr s \<and> after_sweeps ses (j + k) s0 = Inr s'"
  then have "after_sweeps ses k s = Inr s'" by (auto simp: after_sweeps_add)
  then show "advances s s'" by (rule after_sweeps_advances)
next
  assume "sweep ses nms s = Inr s'"
  then show "advances s s'" by (rule sweep_advances)
next
  assume "wait_loop ses s = Some (Inr s')"
  then show "advances s s'" by (rule wait_loop_advances)
next
  assume adv: "advances s s'"
  from adv show "completed s \<subseteq> completed s'" by (simp add: advances_def)
  from adv show "\<forall>n off. log_offsets s n = Some off \<longrightarrow>
          (\<exists>off'. log_offsets s' n = Some off' \<and> off \<le> off')" by (simp add: advances_def)
  from adv show "\<forall>n \<in> completed s. log_offsets s' n = log_offsets s n \<and> results s' n = results s n"
    by (simp add: advances_def)
  from adv show "\<exists>ps. polls s' = polls s @ ps \<and> set ps \<inter> completed s = {}"
    by (simp add: advances_def)
next
  assume "nm \<in> completed s"
  then show "poll_one ses nm s = Inr s" by (simp add: poll_one_def)
next
  from after_sweeps_inv [OF initial_inv, of ses k]
  show "\<exists>s1. after_sweeps ses k (initial_monitor ses) = Inr s1" by blast
qed

theorem C2_offsets_and_completion_monotone_witness:
  "\<exists>s s'. after_sweeps b_first_session (Suc 0) (initial_monitor b_first_session) = Inr s
     \<and> after_sweeps b_first_session (Suc 0 + Suc 0) (initial_monitor b_first_session) = Inr s'
     \<and> completed s = {lit ''b''} \<and> completed s \<subseteq> completed s'
     \<and> log_offsets s (lit ''b'') = Some 5 \<and> log_offsets s' (lit ''b'') = Some 5
     \<and> results s' (lit ''b'') = results s (lit ''b'')
     \<and> (\<exists>ps. polls s' = polls s @ ps \<and> set ps \<inter> completed s = {})
     \<and> poll_one b_first_session (lit ''b'') s = Inr s"
proof -
  from after_sweeps_inv [OF initial_inv, of b_first_session "Suc 0"] obtain s where
    s: "after_sweeps b_first_session (Suc 0) (initial_monitor b_first_session) = Inr s" by blast
  from after_sweeps_inv [OF initial_inv, of b_first_session "Suc 0 + Suc 0"] obtain s' where
    s': "after_sweeps b_first_session (Suc 0 + Suc 0) (initial_monitor b_first_session) = Inr s'"
    by blast
  from b_first_one_sweep s have c: "completed s = {lit ''b''}"
    and o: "log_offsets s (lit ''b'') = Some 5" by simp_all
  note inst = C2_offsets_and_completion_monotone
    [of b_first_session "Suc 0" "initial_monitor b_first_session" s "Suc 0" s' "[]" "lit ''b''"]
  from inst s s' have adv: "advances s s'" by blast
  from inst adv have m: "completed s \<subseteq> completed s'"
    "\<forall>n \<in> completed s. log_offsets s' n = log_offsets s n \<and> results s' n = results s n"
    "\<exists>ps. polls s' = polls s @ ps \<and> set ps \<inter> completed s = {}"
    by blast+
  from inst c have p: "poll_one b_first_session (lit ''b'') s = Inr s" by blast
  from m(2) c o have "log_offsets s' (lit ''b'') = Some 5"
    "results s' (lit ''b'') = results s (lit ''b'')" by simp_all
  with s s' c o m(1,3) p show ?thesis by blast
qed

subsection \<open>C3: a failed poll skips the job for the sweep\<close>





subsection \<open>C9: when the log tail is taken\<close>

lemma poll_one_stores_tail:
  assumes "nm \<notin> completed s"
    and "poll_build (world ses (length (polls s))) (resource_group ses) nm = Inr (r, logs)"
    and "poll_one ses nm s = Inr s'"
  shows "\<exists>r'. results s' nm = Some r' \<and> logs_tail r' = tail_lines logs LOG_TAIL_LINES
           \<and> state r' = state r"
  using poll_one_Inr [OF assms(3)] assms(1,2) poll_build_fields [OF assms(2)]
  by (elim disjE conjE exE) simp_all

lemma wait_for_builds_provenance:
  assumes ret: "wait_for_builds w env rg nms urls = Some (Inr (rs, sf))" and i: "i < length nms"
  shows "\<exists>t r0 logs. t < length (polls sf) \<and> polls sf ! t = nms ! i
           \<and> poll_build (w t) rg (nms ! i) = Inr (r0, logs) \<and> state r0 = TERMINATED
           \<and> state (rs ! i) = TERMINATED
           \<and> logs_tail (rs ! i) = tail_lines logs LOG_TAIL_LINES"
proof -
  define ses where "ses = new_session w env rg nms urls"
  have unf: "wait_for_builds w env rg nms urls =
      (case wait_loop ses (initial_monitor ses) of
         None \<Rightarrow> None
       | Some (Inl ex) \<Rightarrow> Some (Inl ex)
       | Some (Inr s) \<Rightarrow> Some (finish_session ses s))"
    unfolding wait_for_builds_def Let_def ses_def ..
  from ret unf obtain y where y: "wait_loop ses (initial_monitor ses) = Some y"
    by (cases "wait_loop ses (initial_monitor ses)") simp_all
  from wait_loop_result [OF y] obtain s where s: "y = Inr s" "session_inv ses s" "\<not> pending ses s"
    by blast
  from ret unf y s(1) have fin: "finish_session ses s = Inr (rs, sf)"
    by simp
  have nms: "image_names ses = nms" by (simp add: ses_def)
  from finish_session_result [OF s(2,3)] obtain rs' s1 where f:
    "finish_session ses s = Inr (rs', s1)" "results s1 = results s" "polls s1 = polls s"
    "\<forall>i < length (image_names ses).
        results s1 (image_names ses ! i) = Some (rs' ! i) \<and> state (rs' ! i) = TERMINATED"
    by blast
  from f(1) fin have eq: "rs' = rs" "s1 = sf" by simp_all
  from f(4) i nms eq f(2) have res: "results s (nms ! i) = Some (rs ! i)"
    and st: "state (rs ! i) = TERMINATED" by simp_all
  from f(3) eq have pl: "polls sf = polls s" by simp
  from s(2) res obtain t r0 logs where t: "t < length (polls s)" "polls s ! t = nms ! i"
    "poll_build (world ses t) (resource_group ses) (nms ! i) = Inr (r0, logs)"
    "rs ! i = r0\<lparr>portal_url := (case portal_urls ses (nms ! i) of None \<Rightarrow> [] | Some u \<Rightarrow> u)\<rparr>"
    unfolding session_inv_def by blast
  from t(4) st have "state r0 = TERMINATED" by simp
  moreover from t(4) poll_build_fields [OF t(3)]
  have "logs_tail (rs ! i) = tail_lines logs LOG_TAIL_LINES" by simp
  ultimately show ?thesis using t(1,2,3) st pl
    by (intro exI [of _ t] exI [of _ r0] exI [of _ logs]) (simp add: ses_def)
qed

lemma after_sweeps_completed_results:
  "nm \<in> completed s \<Longrightarrow> after_sweeps ses k s = Inr s' \<Longrightarrow> results s' nm = results s nm"
  by (auto dest!: after_sweeps_advances simp: advances_def)

lemma growing_run:
  "map_option (map_sum id (\<lambda>(rs, s). (map image_name rs, map state rs, map logs_tail rs, polls s)))
     (wait_for_builds growing Map.empty (lit ''rg'') [lit ''job''] None)
   = Some (Inr ([lit ''job''], [TERMINATED], [lit ''one'' @ [LF] @ lit ''two''],
                [lit ''job'', lit ''job'', lit ''job'']))"
  by (simp add: wait_for_builds_def wait_loop.simps monitor_defs poll_reported growing_def text_defs)

text \<open>
  C9, as the program has it.  Every successful call of \<^verbatim>\<open>poll_build\<close> for a pending job,
  whatever state it reports, stores a result whose \<open>logs_tail\<close> is the tail of the log
  fetched by that call (replacing the result stored before).  Once the job is completed
  its stored result no longer changes.  So the \<open>logs_tail\<close> of a returned result is the
  tail of the log fetched by a poll of that job which reported the terminal state.
\<close>

theorem C9_logs_tail_of_every_poll:
  "(nm \<notin> completed s
      \<and> poll_build (world ses (length (polls s))) (resource_group ses) nm = Inr (r, logs)
      \<and> poll_one ses nm s = Inr s'
     \<longrightarrow> (\<exists>r'. results s' nm = Some r' \<and> logs_tail r' = tail_lines logs LOG_TAIL_LINES
               \<and> state r' = state r))
   \<and> (nm \<in> completed s \<and> after_sweeps ses k s = Inr s' \<longrightarrow> results s' nm = results s nm)
   \<and> (wait_for_builds w env rg nms urls = Some (Inr (rs, sf)) \<and> i < length nms
     \<longrightarrow> (\<exists>t r0 lg. t < length (polls sf) \<and> polls sf ! t = nms ! i
             \<and> poll_build (w t) rg (nms ! i) = Inr (r0, lg) \<and> state r0 = TERMINATED
             \<and> state (rs ! i) = TERMINATED
             \<and> logs_tail (rs ! i) = tail_lines lg LOG_TAIL_LINES))"
  using poll_one_stores_tail [of nm s ses r logs s']
        after_sweeps_completed_results [of nm s ses k s']
        wait_for_builds_provenance [of w env rg nms urls rs sf i]
  by blast

theorem C9_logs_tail_of_every_poll_witness:
  "(\<exists>s' r'. poll_one growing_session (lit ''job'') (initial_monitor growing_session) = Inr s'
        \<and> results s' (lit ''job'') = Some r' \<and> logs_tail r' = lit ''one''
        \<and> state r' = lit ''Running'')
   \<and> (\<exists>s s'. after_sweeps b_first_session (Suc 0) (initial_monitor b_first_session) = Inr s
        \<and> after_sweeps b_first_session (Suc 0) s = Inr s'
        \<and> lit ''b'' \<in> completed s \<and> results s' (lit ''b'') = results s (lit ''b''))
   \<and> (\<exists>rs sf t r0 lg.
        wait_for_builds growing Map.empty (lit ''rg'') [lit ''job''] None = Some (Inr (rs, sf))
      \<and> t < length (polls sf) \<and> polls sf ! t = lit ''job''
      \<and> poll_build (growing t) (lit ''rg'') (lit ''job'') = Inr (r0, lg)
      \<and> state r0 = TERMINATED
      \<and> logs_tail (rs ! 0) = tail_lines lg LOG_TAIL_LINES)"
proof (intro conjI)
  define s0 where "s0 = initial_monitor growing_session"
  define r where "r = \<lparr>image_name = lit ''job'', state = lit ''Running'', exit_code = None,
      start_time = None, finish_time = None, detail_status = [],
      logs_tail = lit ''one'', portal_url = []\<rparr>"
  have 1: "lit ''job'' \<notin> completed s0" by (simp add: s0_def initial_monitor_def)
  have 2: "poll_build (world growing_session (length (polls s0)))
      (resource_group growing_session) (lit ''job'') = Inr (r, lit ''one'')"
    by (simp add: s0_def r_def growing_session_def initial_monitor_def growing_def poll_reported
        text_defs)
  from poll_one_inv [OF initial_inv, of "lit ''job''" growing_session] obtain s' where
    3: "poll_one growing_session (lit ''job'') s0 = Inr s'"
    by (auto simp: s0_def growing_session_def)
  from C9_logs_tail_of_every_poll
    [THEN conjunct1, of "lit ''job''" s0 growing_session r "lit ''one''" s'] 1 2 3
  obtain r' where "results s' (lit ''job'') = Some r'"
    "logs_tail r' = tail_lines (lit ''one'') LOG_TAIL_LINES" "state r' = state r" by blast
  moreover have "tail_lines (lit ''one'') LOG_TAIL_LINES = lit ''one''" by (simp add: text_defs)
  ultimately show "\<exists>s' r'. poll_one growing_session (lit ''job'') (initial_monitor growing_session) = Inr s'
        \<and> results s' (lit ''job'') = Some r' \<and> logs_tail r' = lit ''one''
        \<and> state r' = lit ''Running''"
    using 3 by (intro exI [of _ s'] exI [of _ r']) (simp add: s0_def r_def)
next
  from after_sweeps_inv [OF initial_inv, of b_first_session "Suc 0"] obtain s where
    s: "after_sweeps b_first_session (Suc 0) (initial_monitor b_first_session) = Inr s"
       "session_inv b_first_session s" by blast
  from after_sweeps_inv [OF s(2), of "Suc 0"] obtain s' where
    s': "after_sweeps b_first_session (Suc 0) s = Inr s'" by blast
  from b_first_one_sweep s(1) have c: "lit ''b'' \<in> completed s" by simp
  from C9_logs_tail_of_every_poll
    [THEN conjunct2, THEN conjunct1, of "lit ''b''" s b_first_session "Suc 0" s'] c s'
  have "results s' (lit ''b'') = results s (lit ''b'')" by blast
  with s(1) s' c show "\<exists>s s'. after_sweeps b_first_session (Suc 0) (initial_monitor b_first_session) = Inr s
        \<and> after_sweeps b_first_session (Suc 0) s = Inr s'
        \<and> lit ''b'' \<in> completed s \<and> results s' (lit ''b'') = results s (lit ''b'')"
    by blast
next
  have late: "\<forall>t \<ge> 2. \<forall>n \<in> set [lit ''job''].
      \<exists>r logs. poll_build (growing t) (lit ''rg'') n = Inr (r, logs) \<and> state r = TERMINATED"
    by (simp add: growing_def poll_reported text_defs)
  from wait_for_builds_total [OF _ late, of Map.empty None] obtain rs sf where
    1: "wait_for_builds growing Map.empty (lit ''rg'') [lit ''job''] None = Some (Inr (rs, sf))"
    by auto
  from C9_logs_tail_of_every_poll
    [THEN conjunct2, THEN conjunct2, of growing Map.empty "lit ''rg''" "[lit ''job'']" None rs sf 0] 1
  obtain t r0 lg where "t < length (polls sf)" "polls sf ! t = lit ''job''"
    "poll_build (growing t) (lit ''rg'') (lit ''job'') = Inr (r0, lg)" "state r0 = TERMINATED"
    "logs_tail (rs ! 0) = tail_lines lg LOG_TAIL_LINES"
    by auto
  with 1 show "\<exists>rs sf t r0 lg.
        wait_for_builds growing Map.empty (lit ''rg'') [lit ''job''] None = Some (Inr (rs, sf))
      \<and> t < length (polls sf) \<and> polls sf ! t = lit ''job''
      \<and> poll_build (growing t) (lit ''rg'') (lit ''job'') = Inr (r0, lg)
      \<and> state r0 = TERMINATED
      \<and> logs_tail (rs ! 0) = tail_lines lg LOG_TAIL_LINES" by blast
qed

text \<open>
  C9 as stated says that the log tail is taken once, by the poll that observes the
  terminal state, and is not updated by earlier polls.  Against \<open>growing\<close>, the result
  stored for job \<^verbatim>\<open>job\<close> after the first sweep is in state \<^verbatim>\<open>Running\<close> and already has
  the log tail \<^verbatim>\<open>one\<close>; after the second sweep it is still \<^verbatim>\<open>Running\<close> and the tail has
  become \<^verbatim>\<open>one\ntwo\<close>.  The job is not completed in either state.
\<close>

theorem C9_tail_updated_while_running_counterexample:
  "map_sum id (\<lambda>s. (map_option (\<lambda>r. (state r, logs_tail r)) (results s (lit ''job'')),
                     completed s))
     (after_sweeps growing_session (Suc 0) (initial_monitor growing_session))
   = Inr (Some (lit ''Running'', lit ''one''), {})
   \<and> map_sum id (\<lambda>s. (map_option (\<lambda>r. (state r, logs_tail r)) (results s (lit ''job'')),
                     completed s))
     (after_sweeps growing_session (Suc (Suc 0)) (initial_monitor growing_session))
   = Inr (Some (lit ''Running'', lit ''one'' @ [LF] @ lit ''two''), {})"
  by (simp add: growing_session_def monitor_defs poll_reported growing_def text_defs)

subsection \<open>C10: only the first container counts\<close>

text \<open>
  C10.  Let two container group descriptors have the same first container and the same
  provisioning state, whatever containers follow the first, and let the log client be
  the same.  Then \<open>get_container_state\<close> gives the same triple for both, which is the
  triple of the group with the first container alone, and \<open>poll_build\<close> gives the same
  result and log for both: state, exit code, detail, time stamps and log tail.  The log
  is fetched for the name of the first container.
\<close>

theorem C10_first_container_only:
  "containers cg = Some (c # rest) \<and> containers cg' = Some (c # rest')
     \<and> provisioning_state cg' = provisioning_state cg
     \<and> group_get cl rg nm = Inr cg \<and> group_get cl' rg nm = Inr cg'
     \<and> list_logs cl' = list_logs cl
   \<longrightarrow> get_container_state cg' = get_container_state cg
     \<and> get_container_state cg = get_container_state (cg\<lparr>containers := Some [c]\<rparr>)
     \<and> poll_build cl' rg nm = poll_build cl rg nm
     \<and> (\<exists>r. poll_build cl rg nm = Inr (r, fetch_logs cl rg nm (name c)))"
  by (auto simp: get_container_state_def containers_or_empty_def poll_build_def fetch_logs_def
        Let_def split: option.splits prod.splits)

theorem C10_first_container_only_witness:
  "get_container_state (with_sidecar (reported_group (lit ''Running'') None))
     = get_container_state (reported_group (lit ''Running'') None)
   \<and> poll_build (service (\<lambda>nm. Inr (with_sidecar (reported_group (lit ''Running'') None)))
                  (\<lambda>nm. lit ''ok'')) (lit ''rg'') (lit ''job'')
     = poll_build (service (\<lambda>nm. Inr (reported_group (lit ''Running'') None))
                  (\<lambda>nm. lit ''ok'')) (lit ''rg'') (lit ''job'')"
  using C10_first_container_only
    [of "reported_group (lit ''Running'') None" "builder (lit ''Running'') None" "[]"
        "with_sidecar (reported_group (lit ''Running'') None)" "[sidecar]"
        "service (\<lambda>nm. Inr (reported_group (lit ''Running'') None)) (\<lambda>nm. lit ''ok'')"
        "lit ''rg''" "lit ''job''"
        "service (\<lambda>nm. Inr (with_sidecar (reported_group (lit ''Running'') None))) (\<lambda>nm. lit ''ok'')"]
  by (simp add: reported_group_def with_sidecar_def containers_or_empty_def service_def)

subsection \<open>The reporter\<close>

lemma filter_nonempty_iff: "filter P xs \<noteq> [] \<longleftrightarrow> (\<exists>x \<in> set xs. P x)"
  by (simp add: filter_empty_conv)

lemma escape_newlines_no_LF: "LF \<notin> set (escape_newlines m)"
  by (induction m) (auto simp: escape_newlines_def lit_def LF_def)

lemma escape_newlines_append:
  "escape_newlines (a @ b) = escape_newlines a @ escape_newlines b"
  by (simp add: escape_newlines_def)

lemma escape_newlines_LF: "escape_newlines [LF] = lit ''%0A''"
  by (simp add: escape_newlines_def)

lemma escape_newlines_id: "LF \<notin> set m \<Longrightarrow> escape_newlines m = m"
  by (induction m) (auto simp: escape_newlines_def)

lemma fold_error_annotation:
  "fold error_annotation rs out =
     out @ map (\<lambda>r. lit ''::error title='' @ image_name r @ lit '' build failed::''
                     @ escape_newlines (error_message r) @ [LF]) rs"
  by (induction rs arbitrary: out)
     (simp_all add: error_annotation_def emit_github_annotation_def annotation_text_def
        print_line_def Let_def lit_def)

lemma fold_notice_annotation:
  "fold notice_annotation rs out =
     out @ map (\<lambda>r. lit ''::notice title='' @ image_name r
                     @ lit '' build succeeded::Build completed successfully.'' @ [LF]) rs"
  by (induction rs arbitrary: out)
     (simp_all add: notice_annotation_def emit_github_annotation_def annotation_text_def
        print_line_def Let_def lit_def escape_newlines_def LF_def)

lemma lit_no_LF: "LF \<notin> set (lit ''::error title='')" "LF \<notin> set (lit '' build failed::'')"
  "LF \<notin> set (lit ''::notice title='')"
  "LF \<notin> set (lit '' build succeeded::Build completed successfully.'')"
  by (simp_all add: lit_def LF_def)

lemmas report_defs = ci_env_def is_github_actions_def write_github_summary_def append_file_def
  result_of_def failed_def succeeded_def error_message_def

lemma py_join_last:
  "ns \<noteq> [] \<Longrightarrow> py_join sep ns = concat (map (\<lambda>n. n @ sep) (butlast ns)) @ last ns"
  by (induction sep ns rule: py_join.induct) simp_all

text \<open>
  C6.  \<open>report_results\<close> returns the failed results, in the order of the list.  Outside
  CI mode, that is when neither \<^verbatim>\<open>GITHUB_ACTIONS\<close> nor \<^verbatim>\<open>GITHUB_ACTION\<close> is set to a
  non-empty value, it writes nothing.  In CI mode, after the summary has been written, it
  calls \<open>write_github_output\<close> for the key \<^verbatim>\<open>build_result\<close>, with the value \<^verbatim>\<open>failure\<close> if
  a result failed, else \<^verbatim>\<open>success\<close> if one succeeded, else \<^verbatim>\<open>unknown\<close>; then for
  \<^verbatim>\<open>failed_images\<close> exactly when a result failed, the value being the names of the failed
  results in order, each but the last followed by a comma; then for \<^verbatim>\<open>succeeded_images\<close>
  in the same way exactly when a result succeeded.  With the output sink set, these
  lines are appended to that file in this order; with no sink the calls write nothing.
\<close>

theorem C6_report_results:
  "fst (report_results env rs (out, fs)) = filter failed rs
   \<and> (is_github_actions env \<longleftrightarrow>
        (\<exists>v. env (lit ''GITHUB_ACTIONS'') = Some v \<and> v \<noteq> [])
      \<or> (\<exists>v. env (lit ''GITHUB_ACTION'') = Some v \<and> v \<noteq> []))
   \<and> (\<not> is_github_actions env \<longrightarrow> report_results env rs (out, fs) = (filter failed rs, out, fs))
   \<and> (is_github_actions env \<longrightarrow>
        snd (snd (report_results env rs (out, fs))) =
          (let fs1 = write_github_summary env (py_join [LF] (summary_lines rs)) fs;
               verdict = (if \<exists>r \<in> set rs. failed r then lit ''failure''
                          else if \<exists>r \<in> set rs. succeeded r then lit ''success''
                          else lit ''unknown'');
               failed_names = map image_name (filter failed rs);
               succeeded_names = map image_name (filter succeeded rs);
               fs2 = write_github_output env (lit ''build_result'') verdict fs1;
               fs3 = (if \<exists>r \<in> set rs. failed r
                      then write_github_output env (lit ''failed_images'')
                             (concat (map (\<lambda>n. n @ lit '','') (butlast failed_names))
                              @ last failed_names) fs2
                      else fs2)
           in if \<exists>r \<in> set rs. succeeded r
              then write_github_output env (lit ''succeeded_images'')
                     (concat (map (\<lambda>n. n @ lit '','') (butlast succeeded_names))
                      @ last succeeded_names) fs3
              else fs3)
      \<and> snd (snd (report_results env rs (out, fs))) =
          (let fs1 = write_github_summary env (py_join [LF] (summary_lines rs)) fs;
               verdict = (if \<exists>r \<in> set rs. failed r then lit ''failure''
                          else if \<exists>r \<in> set rs. succeeded r then lit ''success''
                          else lit ''unknown'');
               failed_names = map image_name (filter failed rs);
               succeeded_names = map image_name (filter succeeded rs);
               written =
                 lit ''build_result='' @ verdict @ [LF]
                 @ (if \<exists>r \<in> set rs. failed r
                    then lit ''failed_images=''
                         @ concat (map (\<lambda>n. n @ lit '','') (butlast failed_names))
                         @ last failed_names @ [LF]
                    else [])
                 @ (if \<exists>r \<in> set rs. succeeded r
                    then lit ''succeeded_images=''
                         @ concat (map (\<lambda>n. n @ lit '','') (butlast succeeded_names))
                         @ last succeeded_names @ [LF]
                    else [])
           in case env (lit ''GITHUB_OUTPUT'') of
                None \<Rightarrow> fs1
              | Some output_file \<Rightarrow>
                  if output_file = [] then fs1
                  else fs1(output_file \<mapsto>
                         (case fs1 output_file of None \<Rightarrow> [] | Some old \<Rightarrow> old) @ written)))
   \<and> write_github_output env key val fs =
        (case env (lit ''GITHUB_OUTPUT'') of
           None \<Rightarrow> fs
         | Some output_file \<Rightarrow>
             if output_file = [] then fs
             else fs(output_file \<mapsto>
                    (case fs output_file of None \<Rightarrow> [] | Some old \<Rightarrow> old)
                    @ key @ lit ''='' @ val @ [LF]))
   \<and> write_github_summary env markdown fs =
        (case env (lit ''GITHUB_STEP_SUMMARY'') of
           None \<Rightarrow> fs
         | Some summary_file \<Rightarrow>
             if summary_file = [] then fs
             else fs(summary_file \<mapsto>
                    (case fs summary_file of None \<Rightarrow> [] | Some old \<Rightarrow> old)
                    @ markdown @ [LF]))"
proof (intro conjI impI)
  show "fst (report_results env rs (out, fs)) = filter failed rs"
    by (simp add: report_results_def Let_def)
next
  show "is_github_actions env \<longleftrightarrow>
        (\<exists>v. env (lit ''GITHUB_ACTIONS'') = Some v \<and> v \<noteq> [])
      \<or> (\<exists>v. env (lit ''GITHUB_ACTION'') = Some v \<and> v \<noteq> [])"
    by (cases "env (lit ''GITHUB_ACTIONS'')"; cases "env (lit ''GITHUB_ACTION'')")
       (simp_all add: is_github_actions_def)
next
  assume "\<not> is_github_actions env"
  then show "report_results env rs (out, fs) = (filter failed rs, out, fs)"
    by (simp add: report_results_def)
next
  assume "is_github_actions env"
  then show "snd (snd (report_results env rs (out, fs))) =
          (let fs1 = write_github_summary env (py_join [LF] (summary_lines rs)) fs;
               verdict = (if \<exists>r \<in> set rs. failed r then lit ''failure''
                          else if \<exists>r \<in> set rs. succeeded r then lit ''success''
                          else lit ''unknown'');
               failed_names = map image_name (filter failed rs);
               succeeded_names = map image_name (filter succeeded rs);
               fs2 = write_github_output env (lit ''build_result'') verdict fs1;
               fs3 = (if \<exists>r \<in> set rs. failed r
                      then write_github_output env (lit ''failed_images'')
                             (concat (map (\<lambda>n. n @ lit '','') (butlast failed_names))
                              @ last failed_names) fs2
                      else fs2)
           in if \<exists>r \<in> set rs. succeeded r
              then write_github_output env (lit ''succeeded_images'')
                     (concat (map (\<lambda>n. n @ lit '','') (butlast succeeded_names))
                      @ last succeeded_names) fs3
              else fs3)"
    by (simp add: report_results_def Let_def write_outputs_def build_result_def
        filter_nonempty_iff [symmetric] py_join_last)
next
  assume "is_github_actions env"
  then show "snd (snd (report_results env rs (out, fs))) =
          (let fs1 = write_github_summary env (py_join [LF] (summary_lines rs)) fs;
               verdict = (if \<exists>r \<in> set rs. failed r then lit ''failure''
                          else if \<exists>r \<in> set rs. succeeded r then lit ''success''
                          else lit ''unknown'');
               failed_names = map image_name (filter failed rs);
               succeeded_names = map image_name (filter succeeded rs);
               written =
                 lit ''build_result='' @ verdict @ [LF]
                 @ (if \<exists>r \<in> set rs. failed r
                    then lit ''failed_images=''
                         @ concat (map (\<lambda>n. n @ lit '','') (butlast failed_names))
                         @ last failed_names @ [LF]
                    else [])
                 @ (if \<exists>r \<in> set rs. succeeded r
                    then lit ''succeeded_images=''
                         @ concat (map (\<lambda>n. n @ lit '','') (butlast succeeded_names))
                         @ last succeeded_names @ [LF]
                    else [])
           in case env (lit ''GITHUB_OUTPUT'') of
                None \<Rightarrow> fs1
              | Some output_file \<Rightarrow>
                  if output_file = [] then fs1
                  else fs1(output_file \<mapsto>
                         (case fs1 output_file of None \<Rightarrow> [] | Some old \<Rightarrow> old) @ written))"
    by (auto simp: report_results_def Let_def write_outputs_def write_github_output_def
        append_file_def build_result_def filter_nonempty_iff [symmetric] py_join_last lit_def
        split: option.splits)
next
  show "write_github_output env key val fs =
        (case env (lit ''GITHUB_OUTPUT'') of
           None \<Rightarrow> fs
         | Some output_file \<Rightarrow>
             if output_file = [] then fs
             else fs(output_file \<mapsto>
                    (case fs output_file of None \<Rightarrow> [] | Some old \<Rightarrow> old)
                    @ key @ lit ''='' @ val @ [LF]))"
    by (auto simp: write_github_output_def append_file_def split: option.splits)
next
  show "write_github_summary env markdown fs =
        (case env (lit ''GITHUB_STEP_SUMMARY'') of
           None \<Rightarrow> fs
         | Some summary_file \<Rightarrow>
             if summary_file = [] then fs
             else fs(summary_file \<mapsto>
                    (case fs summary_file of None \<Rightarrow> [] | Some old \<Rightarrow> old)
                    @ markdown @ [LF]))"
    by (auto simp: write_github_summary_def append_file_def split: option.splits)
qed

theorem C6_report_results_witness:
  "fst (report_results ci_env
         [result_of (lit ''g1'') (Some 0) [], result_of (lit ''b1'') (Some 1) (lit ''packer error''),
          result_of (lit ''g2'') (Some 0) [], result_of (lit ''b2'') (Some 2) [],
          result_of (lit ''u1'') None []]
         ([], Map.empty))
     = [result_of (lit ''b1'') (Some 1) (lit ''packer error''), result_of (lit ''b2'') (Some 2) []]
   \<and> snd (snd (report_results ci_env
         [result_of (lit ''g1'') (Some 0) [], result_of (lit ''b1'') (Some 1) (lit ''packer error''),
          result_of (lit ''g2'') (Some 0) [], result_of (lit ''b2'') (Some 2) [],
          result_of (lit ''u1'') None []]
         ([], Map.empty))) (lit ''out.txt'')
     = Some (lit ''build_result=failure'' @ [LF] @ lit ''failed_images=b1,b2'' @ [LF]
             @ lit ''succeeded_images=g1,g2'' @ [LF])
   \<and> snd (snd (report_results ci_env [result_of (lit ''img1'') (Some 0) []] ([], Map.empty)))
         (lit ''out.txt'')
     = Some (lit ''build_result=success'' @ [LF] @ lit ''succeeded_images=img1'' @ [LF])
   \<and> snd (snd (report_results ci_env [result_of (lit ''img1'') None []] ([], Map.empty)))
         (lit ''out.txt'')
     = Some (lit ''build_result=unknown'' @ [LF])
   \<and> report_results Map.empty [result_of (lit ''bad'') (Some 1) []] ([], Map.empty)
     = ([result_of (lit ''bad'') (Some 1) []], [], Map.empty)"
  using C6_report_results [of ci_env
      "[result_of (lit ''g1'') (Some 0) [], result_of (lit ''b1'') (Some 1) (lit ''packer error''),
        result_of (lit ''g2'') (Some 0) [], result_of (lit ''b2'') (Some 2) [],
        result_of (lit ''u1'') None []]"
      "[]" Map.empty "[]" "[]" "[]"]
    C6_report_results [of ci_env "[result_of (lit ''img1'') (Some 0) []]" "[]" Map.empty "[]" "[]" "[]"]
    C6_report_results [of ci_env "[result_of (lit ''img1'') None []]" "[]" Map.empty "[]" "[]" "[]"]
    C6_report_results [of Map.empty "[result_of (lit ''bad'') (Some 1) []]" "[]" Map.empty "[]" "[]" "[]"]
  by (simp add: report_defs write_github_output_def text_defs Let_def)

text \<open>
  The annotations of \<open>report_results\<close>.  In CI mode it prints one error annotation for
  each failed result, in order, then one notice annotation for each succeeded result,
  and nothing else; outside CI mode it prints nothing.  Each is one \<^verbatim>\<open>print\<close> of
  \<^verbatim>\<open>::<level> title=<text>::<message>\<close> (the title part is left out by
  \<open>emit_github_annotation\<close> when the title is absent or empty), in which every line feed
  of the message is replaced by \<^verbatim>\<open>%0A\<close> and nothing else of it is changed, so that the
  message has no line feed left.  When the image name has no line feed either, the
  annotation has none before the one that ends it.
\<close>

lemma annotations_printed:
  "(is_github_actions env \<longrightarrow>
      fst (snd (report_results env rs (out, fs))) =
        out
        @ map (\<lambda>r. lit ''::error title='' @ image_name r @ lit '' build failed::''
                    @ escape_newlines (error_message r) @ [LF]) (filter failed rs)
        @ map (\<lambda>r. lit ''::notice title='' @ image_name r
                    @ lit '' build succeeded::Build completed successfully.'' @ [LF])
            (filter succeeded rs))
   \<and> (\<not> is_github_actions env \<longrightarrow> fst (snd (report_results env rs (out, fs))) = out)
   \<and> emit_github_annotation level m title out =
        out @ [lit ''::'' @ level
               @ (case title of None \<Rightarrow> [] | Some t \<Rightarrow> if t = [] then [] else lit '' title='' @ t)
               @ lit ''::'' @ escape_newlines m @ [LF]]
   \<and> LF \<notin> set (escape_newlines m)
   \<and> escape_newlines (a @ [LF] @ b) = escape_newlines a @ lit ''%0A'' @ escape_newlines b
   \<and> (LF \<notin> set m \<longrightarrow> escape_newlines m = m)
   \<and> (LF \<notin> set (image_name r) \<longrightarrow>
        LF \<notin> set (lit ''::error title='' @ image_name r @ lit '' build failed::''
                     @ escape_newlines (error_message r))
      \<and> LF \<notin> set (lit ''::notice title='' @ image_name r
                     @ lit '' build succeeded::Build completed successfully.''))"
proof (intro conjI impI)
  assume "is_github_actions env"
  then show "fst (snd (report_results env rs (out, fs))) =
        out
        @ map (\<lambda>r. lit ''::error title='' @ image_name r @ lit '' build failed::''
                    @ escape_newlines (error_message r) @ [LF]) (filter failed rs)
        @ map (\<lambda>r. lit ''::notice title='' @ image_name r
                    @ lit '' build succeeded::Build completed successfully.'' @ [LF])
            (filter succeeded rs)"
    by (simp add: report_results_def Let_def fold_error_annotation fold_notice_annotation)
next
  assume "\<not> is_github_actions env"
  then show "fst (snd (report_results env rs (out, fs))) = out"
    by (simp add: report_results_def)
next
  show "emit_github_annotation level m title out =
        out @ [lit ''::'' @ level
               @ (case title of None \<Rightarrow> [] | Some t \<Rightarrow> if t = [] then [] else lit '' title='' @ t)
               @ lit ''::'' @ escape_newlines m @ [LF]]"
    by (simp add: emit_github_annotation_def annotation_text_def print_line_def Let_def)
next
  show "LF \<notin> set (escape_newlines m)" by (rule escape_newlines_no_LF)
next
  show "escape_newlines (a @ [LF] @ b) = escape_newlines a @ lit ''%0A'' @ escape_newlines b"
    by (simp add: escape_newlines_def)
next
  assume "LF \<notin> set m"
  then show "escape_newlines m = m" by (rule escape_newlines_id)
next
  assume "LF \<notin> set (image_name r)"
  then show "LF \<notin> set (lit ''::error title='' @ image_name r @ lit '' build failed::''
                     @ escape_newlines (error_message r))"
    using lit_no_LF escape_newlines_no_LF [of "error_message r"] by simp
next
  assume "LF \<notin> set (image_name r)"
  then show "LF \<notin> set (lit ''::notice title='' @ image_name r
                     @ lit '' build succeeded::Build completed successfully.'')"
    using lit_no_LF by simp
qed

lemma annotations_printed_example:
  "fst (snd (report_results ci_env
         [result_of (lit ''good'') (Some 0) [], result_of (lit ''bad'') (Some 1) (lit ''packer error'')]
         ([], Map.empty)))
     = [lit ''::error title=bad build failed::Build failed with exit code 1.%0A%0ALast 50 lines:%0Apacker error'' @ [LF],
        lit ''::notice title=good build succeeded::Build completed successfully.'' @ [LF]]
   \<and> fst (snd (report_results Map.empty [result_of (lit ''bad'') (Some 1) []] ([], Map.empty))) = []"
  using annotations_printed [of ci_env
      "[result_of (lit ''good'') (Some 0) [], result_of (lit ''bad'') (Some 1) (lit ''packer error'')]"
      "[]" Map.empty _ "lit ''packer error''" _ _ _ "result_of (lit ''bad'') (Some 1) []"]
    annotations_printed [of Map.empty "[result_of (lit ''bad'') (Some 1) []]" "[]" Map.empty]
  by (simp add: report_defs text_defs Let_def)

text \<open>
  C7.  The claim is that in CI mode every annotation printed by \<open>report_results\<close> is a
  single physical line.  For a failed result whose image name is \<^verbatim>\<open>a\nb\<close> the program
  prints an annotation with a line feed after \<^verbatim>\<open>::error title=a\<close>: the title is put into
  the line as it is, and only the message is escaped.  Read by lines, the text printed
  is two lines.  A carriage return in the message is left in place as well: for a failed
  result whose log tail is \<^verbatim>\<open>x\ry\<close> the text printed is again two lines.
\<close>

theorem C7_annotation_spans_two_lines:
  "fst (snd (report_results ci_env [result_of (lit ''a'' @ [LF] @ lit ''b'') (Some 1) []]
         ([], Map.empty)))
     = [lit ''::error title=a'' @ [LF]
        @ lit ''b build failed::Build failed with exit code 1.%0A%0ALast 50 lines:%0A(no logs available)''
        @ [LF]]
   \<and> splitlines (concat (fst (snd (report_results ci_env
         [result_of (lit ''a'' @ [LF] @ lit ''b'') (Some 1) []] ([], Map.empty)))))
     = [lit ''::error title=a'',
        lit ''b build failed::Build failed with exit code 1.%0A%0ALast 50 lines:%0A(no logs available)'']
   \<and> fst (snd (report_results ci_env
         [result_of (lit ''img'') (Some 1) (lit ''x'' @ [13] @ lit ''y'')] ([], Map.empty)))
     = [lit ''::error title=img build failed::Build failed with exit code 1.%0A%0ALast 50 lines:%0Ax''
        @ [13] @ lit ''y'' @ [LF]]
   \<and> splitlines (concat (fst (snd (report_results ci_env
         [result_of (lit ''img'') (Some 1) (lit ''x'' @ [13] @ lit ''y'')] ([], Map.empty)))))
     = [lit ''::error title=img build failed::Build failed with exit code 1.%0A%0ALast 50 lines:%0Ax'',
        lit ''y'']"
  by (simp add: report_results_def error_annotation_def emit_github_annotation_def
      annotation_text_def report_defs text_defs Let_def)

subsection \<open>C8: the tail of a log\<close>

lemma linebreak_isspace: "is_linebreak c \<Longrightarrow> isspace c"
  by (auto simp: is_linebreak_def isspace_def)

lemma py_strip_Nil: "py_strip [] = []"
  by (simp add: py_strip_def)

lemma py_strip_ends:
  assumes "py_strip s \<noteq> []"
  shows "\<not> isspace (hd (py_strip s)) \<and> \<not> isspace (last (py_strip s))"
proof -
  define t where "t = dropWhile isspace s"
  define u where "u = dropWhile isspace (rev t)"
  have ps: "py_strip s = rev u" by (simp add: py_strip_def t_def u_def)
  with assms have une: "u \<noteq> []" by simp
  then have hu: "\<not> isspace (hd u)" unfolding u_def by (rule hd_dropWhile)
  have "last (rev u) = hd u" using une by (simp add: last_rev)
  with hu ps have l: "\<not> isspace (last (py_strip s))" by simp
  from une have tne: "t \<noteq> []" by (auto simp: u_def)
  then have ht: "\<not> isspace (hd t)" unfolding t_def by (rule hd_dropWhile)
  obtain vs where vs: "rev t = vs @ u" "\<forall>x \<in> set vs. isspace x"
    unfolding u_def
    by (metis takeWhile_dropWhile_id set_takeWhileD)
  then have "t = rev u @ rev vs" by (metis rev_append rev_rev_ident)
  with une have "hd t = hd (rev u)" by simp
  with ht ps have "\<not> isspace (hd (py_strip s))" by simp
  with l show ?thesis by simp
qed

lemma py_strip_id:
  assumes "s \<noteq> []" "\<not> isspace (hd s)" "\<not> isspace (last s)"
  shows "py_strip s = s"
proof -
  from assms(1,2) have 1: "dropWhile isspace s = s" by (cases s) auto
  from assms(1,3) have 2: "dropWhile isspace (rev s) = rev s"
    by (cases "rev s") (auto simp: hd_rev)
  from 1 2 show ?thesis by (simp add: py_strip_def)
qed

lemma is_linebreak_LF: "is_linebreak 10"
  by (simp add: is_linebreak_def)

lemma splitlines_from_plain:
  "\<not> is_linebreak c \<Longrightarrow> splitlines_from cur (c # s) = splitlines_from (cur @ [c]) s"
  by (cases s) simp_all

lemma splitlines_from_LF: "splitlines_from cur (LF # s) = cur # splitlines_from [] s"
  by (cases s) (simp_all add: LF_def is_linebreak_def)

lemma splitlines_from_line:
  "\<forall>c \<in> set l. \<not> is_linebreak c \<Longrightarrow>
     splitlines_from cur (l @ rest) = splitlines_from (cur @ l) rest"
  by (induction l arbitrary: cur) (simp_all add: splitlines_from_plain)

lemma splitlines_from_no_breaks:
  "\<forall>c \<in> set cur. \<not> is_linebreak c \<Longrightarrow> l \<in> set (splitlines_from cur s) \<Longrightarrow>
     \<forall>c \<in> set l. \<not> is_linebreak c"
proof (induction cur s rule: splitlines_from.induct)
  case (1 cur)
  then show ?case by (simp split: if_splits)
next
  case (2 cur c)
  then show ?case by (simp split: if_splits)
next
  case (3 cur c d cs)
  show ?case
  proof (cases "is_linebreak c")
    case True
    show ?thesis
    proof (cases "c = 13 \<and> d = 10")
      case cr: True
      with True "3.prems"(2) have "l = cur \<or> l \<in> set (splitlines_from [] cs)" by simp
      with "3.IH"(1) [OF True cr] "3.prems"(1) show ?thesis by auto
    next
      case cr: False
      with True "3.prems"(2) have "l = cur \<or> l \<in> set (splitlines_from [] (d # cs))" by auto
      with "3.IH"(2) [OF True cr] "3.prems"(1) show ?thesis by auto
    qed
  next
    case False
    with "3.prems"(2) have "l \<in> set (splitlines_from (cur @ [c]) (d # cs))" by simp
    moreover from False "3.prems"(1) have "\<forall>x \<in> set (cur @ [c]). \<not> is_linebreak x" by simp
    ultimately show ?thesis using "3.IH"(3) [OF False] by blast
  qed
qed

lemma splitlines_from_last:
  "s \<noteq> [] \<Longrightarrow> \<not> is_linebreak (last s) \<Longrightarrow>
     splitlines_from cur s \<noteq> [] \<and> last (splitlines_from cur s) \<noteq> []"
  by (induction cur s rule: splitlines_from.induct) (auto simp: is_linebreak_LF split: if_splits)

lemma splitlines_from_join:
  "ls \<noteq> [] \<Longrightarrow> \<forall>l \<in> set ls. \<forall>c \<in> set l. \<not> is_linebreak c \<Longrightarrow> last ls \<noteq> [] \<Longrightarrow>
     splitlines_from cur (py_join [LF] ls) = (cur @ hd ls) # tl ls"
proof (induction "[LF]" ls arbitrary: cur rule: py_join.induct)
  case 1
  then show ?case by simp
next
  case (2 x)
  from splitlines_from_line [of x cur "[]"] 2 show ?case by simp
next
  case (3 x y ys)
  from 3 have ih: "splitlines_from [] (py_join [LF] (y # ys)) = ([] @ y) # ys" by simp
  from 3(3) have "\<forall>c \<in> set x. \<not> is_linebreak c" by simp
  from splitlines_from_line [OF this, of cur "LF # py_join [LF] (y # ys)"] ih
  show ?case by (simp add: splitlines_from_LF)
qed

lemma splitlines_join:
  "\<forall>l \<in> set ls. \<forall>c \<in> set l. \<not> is_linebreak c \<Longrightarrow> ls = [] \<or> last ls \<noteq> [] \<Longrightarrow>
     splitlines (py_join [LF] ls) = ls"
  using splitlines_from_join [of ls "[]"] by (cases "ls = []") (auto simp: splitlines_def)

lemma stripped_lines:
  assumes "py_strip content \<noteq> []"
  shows "splitlines (py_strip content) \<noteq> [] \<and> last (splitlines (py_strip content)) \<noteq> []"
proof -
  from py_strip_ends [OF assms] have "\<not> is_linebreak (last (py_strip content))"
    using linebreak_isspace by blast
  from splitlines_from_last [OF assms this] show ?thesis by (simp add: splitlines_def)
qed

lemma lines_no_breaks: "\<forall>l \<in> set (splitlines s). \<forall>c \<in> set l. \<not> is_linebreak c"
  using splitlines_from_no_breaks [of "[]" _ s] by (simp add: splitlines_def)

lemma tail_lines_positive:
  assumes "1 \<le> k"
  shows "tail_lines content k =
     py_join [LF] (drop (length (splitlines (py_strip content)) - nat k)
                        (splitlines (py_strip content)))"
proof -
  have "nat (int (length (splitlines (py_strip content))) - k)
      = length (splitlines (py_strip content)) - nat k"
    using assms by simp
  with assms show ?thesis by (simp add: tail_lines_def Let_def py_slice_from_def)
qed

lemma tail_lines_split:
  assumes "1 \<le> k"
  shows "splitlines (tail_lines content k) =
     drop (length (splitlines (py_strip content)) - nat k) (splitlines (py_strip content))"
proof -
  define ls where "ls = splitlines (py_strip content)"
  define w where "w = drop (length ls - nat k) ls"
  have nb: "\<forall>l \<in> set w. \<forall>c \<in> set l. \<not> is_linebreak c"
    using lines_no_breaks [of "py_strip content"] set_drop_subset [of "length ls - nat k" ls]
    unfolding w_def ls_def by blast
  have "w = [] \<or> last w \<noteq> []"
  proof (cases "py_strip content = []")
    case True
    then show ?thesis by (simp add: w_def ls_def splitlines_def)
  next
    case False
    from stripped_lines [OF False] have "ls \<noteq> []" "last ls \<noteq> []" by (simp_all add: ls_def)
    moreover from this(1) assms have "length ls - nat k < length ls" by (cases ls) auto
    ultimately show ?thesis by (simp add: w_def)
  qed
  from splitlines_join [OF nb this] tail_lines_positive [OF assms, of content]
  show ?thesis by (simp add: w_def ls_def)
qed

text \<open>
  C8, as the program has it.  For a line count \<open>k\<close> of at least 1, \<open>tail_lines\<close> returns
  the last \<open>k\<close> lines of the text without its leading and trailing white space, joined by
  line feeds (all of them when there are fewer than \<open>k\<close>); blank lines between the first
  and the last line are lines like any other.  Read by lines again, the value returned
  is that list of lines: it has at most \<open>k\<close> lines, and when the text is not all white
  space its last line is the last line of the stripped text, which is not empty.  For
  an empty text, and for a text of white space only, the value is the empty string,
  whatever \<open>k\<close> is.  A text that neither begins nor ends with white space is its own
  stripped text.
\<close>

theorem C8_tail_lines:
  "(1 \<le> k \<longrightarrow>
      tail_lines content k =
        py_join [LF] (drop (length (splitlines (py_strip content)) - nat k)
                           (splitlines (py_strip content)))
    \<and> splitlines (tail_lines content k) =
        drop (length (splitlines (py_strip content)) - nat k) (splitlines (py_strip content))
    \<and> int (length (splitlines (tail_lines content k))) \<le> k
    \<and> (py_strip content \<noteq> [] \<longrightarrow>
          splitlines (tail_lines content k) \<noteq> []
        \<and> last (splitlines (tail_lines content k)) = last (splitlines (py_strip content))
        \<and> last (splitlines (tail_lines content k)) \<noteq> []))
   \<and> (py_strip content = [] \<longrightarrow> tail_lines content k = [])
   \<and> tail_lines [] k = []
   \<and> (content \<noteq> [] \<and> \<not> isspace (hd content) \<and> \<not> isspace (last content)
        \<longrightarrow> py_strip content = content)"
proof (intro conjI impI)
  assume k: "1 \<le> k"
  show "tail_lines content k =
        py_join [LF] (drop (length (splitlines (py_strip content)) - nat k)
                           (splitlines (py_strip content)))"
    by (rule tail_lines_positive [OF k])
  show sp: "splitlines (tail_lines content k) =
        drop (length (splitlines (py_strip content)) - nat k) (splitlines (py_strip content))"
    by (rule tail_lines_split [OF k])
  from sp k show "int (length (splitlines (tail_lines content k))) \<le> k" by simp
  {
    assume ne: "py_strip content \<noteq> []"
    from stripped_lines [OF ne] have l: "splitlines (py_strip content) \<noteq> []"
      "last (splitlines (py_strip content)) \<noteq> []" by simp_all
    from l(1) k have lt: "length (splitlines (py_strip content)) - nat k
        < length (splitlines (py_strip content))"
      by (cases "splitlines (py_strip content)") auto
    from sp lt show "splitlines (tail_lines content k) \<noteq> []" by simp
    from sp lt show e: "last (splitlines (tail_lines content k)) = last (splitlines (py_strip content))"
      by simp
    from e l(2) show "last (splitlines (tail_lines content k)) \<noteq> []" by simp
  }
next
  assume "py_strip content = []"
  then show "tail_lines content k = []"
    by (simp add: tail_lines_def splitlines_def py_slice_from_def)
next
  show "tail_lines [] k = []"
    by (simp add: tail_lines_def splitlines_def py_slice_from_def py_strip_def)
next
  assume "content \<noteq> [] \<and> \<not> isspace (hd content) \<and> \<not> isspace (last content)"
  then show "py_strip content = content" by (simp add: py_strip_id)
qed

theorem C8_tail_lines_witness:
  "tail_lines (lit ''line1'' @ [LF] @ lit ''line2'' @ [LF] @ lit ''line3'') 2
     = lit ''line2'' @ [LF] @ lit ''line3''
   \<and> splitlines (tail_lines (lit ''line1'' @ [LF] @ lit ''line2'' @ [LF] @ lit ''line3'') 2)
     = [lit ''line2'', lit ''line3'']
   \<and> last (splitlines (tail_lines (lit ''line1'' @ [LF] @ lit ''line2'' @ [LF] @ lit ''line3'') 2))
     = lit ''line3''
   \<and> py_strip (lit ''line1'' @ [LF] @ lit ''line2'' @ [LF] @ lit ''line3'')
     = lit ''line1'' @ [LF] @ lit ''line2'' @ [LF] @ lit ''line3''
   \<and> tail_lines ([LF] @ lit ''  '') 3 = []"
  using C8_tail_lines [of 2 "lit ''line1'' @ [LF] @ lit ''line2'' @ [LF] @ lit ''line3''"]
    C8_tail_lines [of 3 "[LF] @ lit ''  ''"]
  by (simp add: text_defs)

text \<open>
  C8 as stated makes the last line returned the last line of the input.  For the
  one-line input \<^verbatim>\<open>'ok '\<close>, which ends with a space, the value returned is \<^verbatim>\<open>'ok'\<close>: the
  text is stripped before it is cut into lines.
\<close>

theorem C8_trailing_space_counterexample:
  "splitlines (lit ''ok '') = [lit ''ok '']
   \<and> tail_lines (lit ''ok '') 1 = lit ''ok''
   \<and> last (splitlines (tail_lines (lit ''ok '') 1)) \<noteq> last (splitlines (lit ''ok ''))"
  by (simp add: text_defs)

text \<open>
  Outside the statement above: for \<open>k = 0\<close> the slice \<^verbatim>\<open>lines[-0:]\<close> is the whole list, so
  all lines are returned, and for a negative \<open>k\<close> the first \<open>-k\<close> lines are dropped.  A
  blank line inside the text takes one of the \<open>k\<close> places.
\<close>

lemma tail_lines_zero:
  "tail_lines (lit ''a'' @ [LF] @ lit ''b'') 0 = lit ''a'' @ [LF] @ lit ''b''
   \<and> length (splitlines (tail_lines (lit ''a'' @ [LF] @ lit ''b'') 0)) = 2
   \<and> tail_lines (lit ''a'' @ [LF] @ lit ''b'' @ [LF] @ lit ''c'') (- 1) = lit ''b'' @ [LF] @ lit ''c''"
  by (simp add: text_defs)

lemma tail_lines_blank_line:
  "tail_lines (lit ''a'' @ [LF, LF] @ lit ''b'') 2 = [LF] @ lit ''b''"
  by (simp add: text_defs)

end
